theory Spec2Isabelle
  imports Main
begin

section \<open>JavaScript values used by scanner.js\<close>

text \<open>
  A JavaScript string is a sequence of 16-bit code units; \<open>length\<close>, indexing,
  \<open>includes\<close>, \<open>split\<close> and the regular expressions of scanner.js (none has the
  \<open>u\<close> flag) all work on code units. A code unit is modelled by its value, a
  natural number (below 65536 in every string JavaScript can build); the only
  arithmetic on code units is the \<open>+ 32\<close> of lower-casing an ASCII capital, which
  cannot overflow, and nothing below depends on the bound. String literals of the
  source are ASCII (the two em dashes in messages apart) and are written through
  \<open>js\<close>.
\<close>

type_synonym code_unit = nat

type_synonym jsstring = "code_unit list"

definition js :: "string \<Rightarrow> jsstring" where
  "js cs = map of_char cs"

text \<open>The only exception the code can raise: a property read or write on \<open>undefined\<close>.\<close>

datatype error = TypeError

text \<open>
  Array cells of the distance table hold numbers. \<open>None\<close> stands for a cell that
  reads as \<open>undefined\<close> (a hole, or an index past the end) and for \<open>NaN\<close>, which is
  what arithmetic on \<open>undefined\<close> gives and what \<open>Math.min\<close> propagates.
\<close>

type_synonym cell = "nat option"

text \<open>\<open>xs[i]\<close> on an array or string: \<open>undefined\<close> out of range.\<close>

definition at_index :: "'a list \<Rightarrow> nat \<Rightarrow> 'a option" where
  "at_index xs i = (if i < length xs then Some (xs ! i) else None)"

text \<open>\<open>row[j]\<close> on a row of cells: a hole and a missing index both read \<open>undefined\<close>.\<close>

definition read_cell :: "cell list \<Rightarrow> nat \<Rightarrow> cell" where
  "read_cell row j = (case at_index row j of None \<Rightarrow> None | Some c \<Rightarrow> c)"

text \<open>\<open>row[j] = v\<close>: JavaScript extends the array, leaving holes below \<open>j\<close>.\<close>

definition write_cell :: "cell list \<Rightarrow> nat \<Rightarrow> cell \<Rightarrow> cell list" where
  "write_cell row j v =
     (if j < length row then row[j := v]
      else row @ replicate (j - length row) None @ [v])"

text \<open>\<open>c + k\<close> and \<open>Math.min(x, y, z)\<close> on cells.\<close>

definition plus_cell :: "cell \<Rightarrow> nat \<Rightarrow> cell" where
  "plus_cell c k = (case c of None \<Rightarrow> None | Some n \<Rightarrow> Some (n + k))"

definition min3 :: "cell \<Rightarrow> cell \<Rightarrow> cell \<Rightarrow> cell" where
  "min3 x y z =
     (case x of None \<Rightarrow> None | Some p \<Rightarrow>
      (case y of None \<Rightarrow> None | Some q \<Rightarrow>
       (case z of None \<Rightarrow> None | Some r \<Rightarrow> Some (min (min p q) r))))"

section \<open>Utility functions: levenshtein\<close>

text \<open>
  \<open>for (let j = 1; j <= a.length; j++) dp[0][j] = j;\<close> with \<open>n = a.length\<close>.
  Reading \<open>dp[0]\<close> of an empty table would give \<open>undefined\<close> and the write a TypeError.
\<close>

function first_row :: "nat \<Rightarrow> nat \<Rightarrow> cell list list \<Rightarrow> error + cell list list" where
  "first_row n j dp =
     (if j \<le> n then
        (case at_index dp 0 of
           None \<Rightarrow> Inl TypeError
         | Some row \<Rightarrow> first_row n (Suc j) (dp[0 := write_cell row j (Some j)]))
      else Inr dp)"
  by pat_completeness auto
termination
  by (relation "measure (\<lambda>(n, j, dp). Suc n - j)") auto

declare first_row.simps [simp del]

text \<open>
  The assignment in the body of the inner loop:
  \<open>dp[i][j] = Math.min(dp[i-1][j] + 1, dp[i][j-1] + 1,
     dp[i-1][j-1] + (a[j-1] === b[i-1] ? 0 : 1))\<close>.
  The loops start at 1, so \<open>i - 1\<close> and \<open>j - 1\<close> are never negative there.
\<close>

definition fill_cell :: "jsstring \<Rightarrow> jsstring \<Rightarrow> nat \<Rightarrow> nat \<Rightarrow> cell list list \<Rightarrow> error + cell list list" where
  "fill_cell a b i j dp =
     (case at_index dp i of
        None \<Rightarrow> Inl TypeError
      | Some row \<Rightarrow>
          (case at_index dp (i - 1) of
             None \<Rightarrow> Inl TypeError
           | Some prev \<Rightarrow>
               Inr (dp[i := write_cell row j
                      (min3 (plus_cell (read_cell prev j) 1)
                            (plus_cell (read_cell row (j - 1)) 1)
                            (plus_cell (read_cell prev (j - 1))
                               (if at_index a (j - 1) = at_index b (i - 1) then 0 else 1)))])))"

function inner_loop :: "jsstring \<Rightarrow> jsstring \<Rightarrow> nat \<Rightarrow> nat \<Rightarrow> cell list list \<Rightarrow> error + cell list list" where
  "inner_loop a b i j dp =
     (if j \<le> length a then
        (case fill_cell a b i j dp of
           Inl e \<Rightarrow> Inl e
         | Inr dp' \<Rightarrow> inner_loop a b i (Suc j) dp')
      else Inr dp)"
  by pat_completeness auto
termination
  by (relation "measure (\<lambda>(a, b, i, j, dp). Suc (length a) - j)") auto

declare inner_loop.simps [simp del]

function outer_loop :: "jsstring \<Rightarrow> jsstring \<Rightarrow> nat \<Rightarrow> cell list list \<Rightarrow> error + cell list list" where
  "outer_loop a b i dp =
     (if i \<le> length b then
        (case inner_loop a b i 1 dp of
           Inl e \<Rightarrow> Inl e
         | Inr dp' \<Rightarrow> outer_loop a b (Suc i) dp')
      else Inr dp)"
  by pat_completeness auto
termination
  by (relation "measure (\<lambda>(a, b, i, dp). Suc (length b) - i)") auto

declare outer_loop.simps [simp del]

text \<open>
  \<open>Array.from({ length: b.length + 1 }, (_, i) => [i])\<close> builds one row \<open>[i]\<close> per
  index; the result is \<open>dp[b.length][a.length]\<close>.
\<close>

definition levenshtein :: "jsstring \<Rightarrow> jsstring \<Rightarrow> error + cell" where
  "levenshtein a b =
     (let dp = map (\<lambda>i. [Some i]) [0..<length b + 1] in
      case first_row (length a) 1 dp of
        Inl e \<Rightarrow> Inl e
      | Inr dp1 \<Rightarrow>
          (case outer_loop a b 1 dp1 of
             Inl e \<Rightarrow> Inl e
           | Inr dp2 \<Rightarrow>
               (case at_index dp2 (length b) of
                  None \<Rightarrow> Inl TypeError
                | Some row \<Rightarrow> Inr (read_cell row (length a)))))"

section \<open>String methods\<close>

text \<open>\<open>s.startsWith(p)\<close>, \<open>s.endsWith(p)\<close> and \<open>s.includes(p)\<close>, on code units.\<close>

fun startsWith :: "jsstring \<Rightarrow> jsstring \<Rightarrow> bool" where
  "startsWith s [] = True"
| "startsWith [] (p # ps) = False"
| "startsWith (c # cs) (p # ps) = (if c = p then startsWith cs ps else False)"

definition endsWith :: "jsstring \<Rightarrow> jsstring \<Rightarrow> bool" where
  "endsWith s p = startsWith (rev s) (rev p)"

fun includes_js :: "jsstring \<Rightarrow> jsstring \<Rightarrow> bool" where
  "includes_js s [] = True"
| "includes_js [] (p # ps) = False"
| "includes_js (c # cs) (p # ps) =
     (if startsWith (c # cs) (p # ps) then True else includes_js cs (p # ps))"

text \<open>
  \<open>s.trim()\<close> removes the code units of WhiteSpace and LineTerminator of ECMAScript
  from both ends: TAB, LF, VT, FF, CR, SP, NBSP, U+1680, U+2000 to U+200A, U+2028,
  U+2029, U+202F, U+205F, U+3000 and U+FEFF.
\<close>

definition is_white :: "code_unit \<Rightarrow> bool" where
  "is_white c =
     ((9 \<le> c \<and> c \<le> 13) \<or> c = 32 \<or> c = 160 \<or> c = 5760 \<or> (8192 \<le> c \<and> c \<le> 8202)
      \<or> c = 8232 \<or> c = 8233 \<or> c = 8239 \<or> c = 8287 \<or> c = 12288 \<or> c = 65279)"

definition trim :: "jsstring \<Rightarrow> jsstring" where
  "trim s = rev (dropWhile is_white (rev (dropWhile is_white s)))"

text \<open>
  \<open>s.toLowerCase()\<close>. An ASCII code unit is mapped on its own: \<open>A\<close> to \<open>Z\<close> go to
  \<open>a\<close> to \<open>z\<close>, every other ASCII unit stays. What a code unit outside ASCII
  becomes is the Unicode case table of the host's engine, which is not part of the
  repository: it is the parameter \<open>U\<close>, giving the code units that replace the unit
  at index \<open>i\<close> of \<open>s\<close> (one unit may become several or, as the second half of a
  surrogate pair, none; the result may depend on the neighbours, as for the Greek
  final sigma).
\<close>

type_synonym case_table = "jsstring \<Rightarrow> nat \<Rightarrow> jsstring"

definition lower_unit :: "code_unit \<Rightarrow> code_unit" where
  "lower_unit c = (if 65 \<le> c \<and> c \<le> 90 then c + 32 else c)"

definition toLowerCase :: "case_table \<Rightarrow> jsstring \<Rightarrow> jsstring" where
  "toLowerCase U s =
     concat (map (\<lambda>i. if s ! i < 128 then [lower_unit (s ! i)] else U s i) [0..<length s])"

text \<open>
  \<open>s.replace(re, "")\<close> for a regular expression anchored with \<open>^\<close> and without the
  \<open>g\<close> and \<open>m\<close> flags: the only possible match starts at index 0; \<open>m\<close> is the
  length of that match, if there is one.
\<close>

definition replace_at_start :: "jsstring \<Rightarrow> nat option \<Rightarrow> jsstring" where
  "replace_at_start s m = (case m of None \<Rightarrow> s | Some n \<Rightarrow> drop n s)"

text \<open>\<open>/^https?:\/\//\<close>: \<open>http\<close>, then \<open>s\<close> if the rest matches with it, then \<open>://\<close>.\<close>

definition match_scheme :: "jsstring \<Rightarrow> nat option" where
  "match_scheme s =
     (if startsWith s (js ''http'') then
        (if startsWith (drop 4 s) (js ''s://'') then Some 8
         else if startsWith (drop 4 s) (js ''://'') then Some 7
         else None)
      else None)"

text \<open>\<open>/^www\./\<close>\<close>

definition match_www :: "jsstring \<Rightarrow> nat option" where
  "match_www s = (if startsWith s (js ''www.'') then Some 4 else None)"

text \<open>
  \<open>s.split(sep)\<close> where every match of the separator is exactly one code unit
  (the class \<open>[/?#]\<close>, the string \<open>"="\<close>): the pieces between the matches, empty
  pieces included; the empty string gives one empty piece.
\<close>

fun split_where :: "(code_unit \<Rightarrow> bool) \<Rightarrow> jsstring \<Rightarrow> jsstring list" where
  "split_where P [] = [[]]"
| "split_where P (c # cs) =
     (if P c then [] # split_where P cs
      else (case split_where P cs of
              [] \<Rightarrow> [[c]]
            | piece # pieces \<Rightarrow> (c # piece) # pieces))"

definition is_delimiter :: "code_unit \<Rightarrow> bool" where
  "is_delimiter c = (c = 47 \<or> c = 63 \<or> c = 35)"

text \<open>\<open>xs.pop()\<close> as an expression: the last element, \<open>undefined\<close> on an empty array.\<close>

definition pop :: "'a list \<Rightarrow> 'a option" where
  "pop xs = (if xs = [] then None else Some (last xs))"

text \<open>\<open>s.match(/c/g)\<close> for one literal code unit \<open>c\<close>: all matches, or \<open>null\<close> when none.\<close>

definition match_all :: "code_unit \<Rightarrow> jsstring \<Rightarrow> jsstring list option" where
  "match_all c s =
     (let ms = map (\<lambda>x. [x]) (filter (\<lambda>x. x = c) s) in if ms = [] then None else Some ms)"

text \<open>\<open>m || []\<close>\<close>

definition or_empty :: "'a list option \<Rightarrow> 'a list" where
  "or_empty m = (case m of None \<Rightarrow> [] | Some ms \<Rightarrow> ms)"

text \<open>\<open>/[0-9]{3,}/.test(s)\<close>: three digits in a row somewhere in \<open>s\<close>.\<close>

definition is_digit :: "code_unit \<Rightarrow> bool" where
  "is_digit c = (48 \<le> c \<and> c \<le> 57)"

fun digit_run :: "jsstring \<Rightarrow> bool" where
  "digit_run (x # y # z # rest) =
     (if is_digit x \<and> is_digit y \<and> is_digit z then True else digit_run (y # z # rest))"
| "digit_run rest = False"

text \<open>\<open>xs.join(sep)\<close>\<close>

fun join :: "jsstring \<Rightarrow> jsstring list \<Rightarrow> jsstring" where
  "join sep [] = []"
| "join sep [x] = x"
| "join sep (x # y # ys) = x @ sep @ join sep (y # ys)"

text \<open>
  A method call or property read on a value that may be \<open>undefined\<close> raises a
  TypeError there.
\<close>

definition on_defined :: "'a option \<Rightarrow> ('a \<Rightarrow> 'b) \<Rightarrow> error + 'b" where
  "on_defined v f = (case v of None \<Rightarrow> Inl TypeError | Some x \<Rightarrow> Inr (f x))"

section \<open>Utility functions: hasHomoglyphs and looksEncoded\<close>

text \<open>\<open>/[\u0400-\u04FF\u0370-\u03FF]/.test(str)\<close>\<close>

definition is_homoglyph :: "code_unit \<Rightarrow> bool" where
  "is_homoglyph c = ((1024 \<le> c \<and> c \<le> 1279) \<or> (880 \<le> c \<and> c \<le> 1023))"

definition hasHomoglyphs :: "jsstring \<Rightarrow> bool" where
  "hasHomoglyphs str = list_ex is_homoglyph str"

text \<open>
  \<open>/^[A-Za-z0-9+/]{12,}={0,2}$/.test(str)\<close>: the whole string is at least 12 units of
  the class followed by \<open>k\<close> signs \<open>=\<close>, for \<open>k\<close> one of 0, 1, 2.
\<close>

definition is_base64 :: "code_unit \<Rightarrow> bool" where
  "is_base64 c =
     ((65 \<le> c \<and> c \<le> 90) \<or> (97 \<le> c \<and> c \<le> 122) \<or> (48 \<le> c \<and> c \<le> 57) \<or> c = 43 \<or> c = 47)"

definition base64_padded :: "nat \<Rightarrow> jsstring \<Rightarrow> bool" where
  "base64_padded k str =
     (k \<le> length str \<and> 12 \<le> length str - k
      \<and> list_all is_base64 (take (length str - k) str)
      \<and> drop (length str - k) str = replicate k 61)"

text \<open>
  \<open>/^[0-9A-F]{16,}$/i.test(str)\<close>. With the \<open>i\<close> flag and no \<open>u\<close> flag a unit matches
  the class when its upper-case form does, and a unit outside ASCII is never mapped
  into ASCII: the class is \<open>[0-9A-Fa-f]\<close>.
\<close>

definition is_hex :: "code_unit \<Rightarrow> bool" where
  "is_hex c = ((48 \<le> c \<and> c \<le> 57) \<or> (65 \<le> c \<and> c \<le> 70) \<or> (97 \<le> c \<and> c \<le> 102))"

definition looksEncoded :: "jsstring \<Rightarrow> bool" where
  "looksEncoded str =
     ((base64_padded 0 str \<or> base64_padded 1 str \<or> base64_padded 2 str)
      \<or> (16 \<le> length str \<and> list_all is_hex str))"

text \<open>An argument of \<open>RegExp.test\<close> is converted to a string first.\<close>

definition to_string :: "jsstring option \<Rightarrow> jsstring" where
  "to_string v = (case v of None \<Rightarrow> js ''undefined'' | Some s \<Rightarrow> s)"

section \<open>Pattern data\<close>

definition phishingClusters :: "jsstring list list" where
  "phishingClusters =
     [[js ''login'', js ''verify''], [js ''secure'', js ''update''], [js ''account'', js ''verify''],
      [js ''security'', js ''alert''], [js ''action'', js ''required''], [js ''package'', js ''held''],
      [js ''delivery'', js ''confirm''], [js ''account'', js ''locked''], [js ''review'', js ''appeal''],
      [js ''billing'', js ''payment'']]"

definition highRiskBrands :: "jsstring list" where
  "highRiskBrands =
     [js ''bankofamerica'', js ''boa'', js ''chase'', js ''wellsfargo'',
      js ''instagram'', js ''facebook'', js ''meta'', js ''apple'', js ''appleid'',
      js ''icloud'', js ''outlook'', js ''hotmail'', js ''fedex'', js ''ups'', js ''usps'', js ''dhl'']"

definition autoUnsafeTLDs :: "jsstring list" where
  "autoUnsafeTLDs =
     [js ''.fake'', js ''.invalid'', js ''.test'', js ''.support'', js ''.support-login'',
      js ''.co-login'', js ''.security-check'', js ''.verify-user'', js ''.user-update'']"

definition phishingWords :: "jsstring list" where
  "phishingWords =
     [js ''login'', js ''verify'', js ''secure'', js ''update'', js ''alert'', js ''confirm'', js ''required'',
      js ''locked'', js ''restore'', js ''appeal'', js ''payment'', js ''billing'', js ''review'',
      js ''suspended'', js ''disabled'']"

definition deliveryWords :: "jsstring list" where
  "deliveryWords =
     [js ''package'', js ''delivery'', js ''fedex'', js ''usps'', js ''ups'', js ''dhl'',
      js ''held'', js ''action-required'', js ''fee'', js ''confirm-details'']"

record number_map =
  bad :: jsstring
  good :: jsstring

definition numberMaps :: "number_map list" where
  "numberMaps =
     [\<lparr>bad = js ''0'', good = js ''o''\<rparr>, \<lparr>bad = js ''1'', good = js ''l''\<rparr>,
      \<lparr>bad = js ''3'', good = js ''e''\<rparr>, \<lparr>bad = js ''5'', good = js ''s''\<rparr>,
      \<lparr>bad = js ''7'', good = js ''t''\<rparr>]"

definition baseBrands :: "jsstring list" where
  "baseBrands =
     [js ''paypal'', js ''google'', js ''amazon'', js ''apple'',
      js ''facebook'', js ''netflix'', js ''chase'', js ''microsoft'']"

section \<open>Main analyzer\<close>

text \<open>
  One entry of the \<open>rules\<close> array. \<open>check\<close> is a closure without arguments over
  \<open>url\<close>, \<open>lower\<close> and \<open>host\<close>; calling it can raise only where it touches a value
  that may be \<open>undefined\<close>.
\<close>

record rule =
  check :: "unit \<Rightarrow> error + bool"
  score :: int
  msg :: jsstring

text \<open>\<open>dist <= 2\<close> is false when \<open>dist\<close> is not a number.\<close>

definition cell_le :: "cell \<Rightarrow> nat \<Rightarrow> bool" where
  "cell_le c n = (case c of None \<Rightarrow> False | Some d \<Rightarrow> d \<le> n)"

text \<open>The check of a similarity rule, lines 166 to 169.\<close>

definition similarity_check :: "jsstring option \<Rightarrow> jsstring \<Rightarrow> error + bool" where
  "similarity_check host b =
     (case host of
        None \<Rightarrow> Inl TypeError
      | Some h \<Rightarrow>
          (case levenshtein h b of
             Inl e \<Rightarrow> Inl e
           | Inr dist \<Rightarrow> Inr (cell_le dist 2 \<and> \<not> endsWith h (b @ js ''.com''))))"

text \<open>
  The \<open>rules\<close> array of \<open>analyzeURL\<close>, in its order. \<open>39\<close> is the apostrophe, \<open>8212\<close>
  the em dash of the two messages that have one.
\<close>

definition rules :: "jsstring \<Rightarrow> jsstring \<Rightarrow> jsstring option \<Rightarrow> rule list" where
  "rules url lower host =
     map (\<lambda>tld. \<lparr>check = (\<lambda>_. on_defined host (\<lambda>h. includes_js h tld)), score = 90,
                 msg = js ''Domain uses high-risk TLD '' @ [39] @ tld @ [39] @ js ''.''\<rparr>) autoUnsafeTLDs
     @ [\<lparr>check = (\<lambda>_. on_defined host (\<lambda>h. 4 \<le> length (or_empty (match_all 45 h)))), score = 40,
         msg = js ''Excessive hyphens indicate synthetic phishing.''\<rparr>]
     @ map (\<lambda>brand. \<lparr>check = (\<lambda>_. on_defined host (\<lambda>h. includes_js h brand)), score = 50,
                 msg = js ''Brand impersonation detected: '' @ [39] @ brand @ [39] @ js ''.''\<rparr>) highRiskBrands
     @ map (\<lambda>cluster. \<lparr>check = (\<lambda>_. Inr (2 \<le> length (filter (\<lambda>w. includes_js lower w) cluster))), score = 50,
                 msg = js ''Phishing keyword cluster detected: '' @ join (js '' + '') cluster\<rparr>) phishingClusters
     @ map (\<lambda>word. \<lparr>check = (\<lambda>_. on_defined host (\<lambda>h. includes_js h word)), score = 25,
                 msg = js ''Suspicious keyword detected: '' @ [39] @ word @ [39] @ js ''.''\<rparr>) phishingWords
     @ [\<lparr>check = (\<lambda>_. on_defined host digit_run), score = 25,
         msg = js ''Suspicious numeric token detected.''\<rparr>]
     @ map (\<lambda>word. \<lparr>check = (\<lambda>_. Inr (includes_js lower word)), score = 40,
                 msg = js ''Delivery scam pattern: '' @ [39] @ word @ [39] @ js ''.''\<rparr>) deliveryWords
     @ [\<lparr>check = (\<lambda>_. Inr (looksEncoded (to_string (pop (split_where (\<lambda>c. c = 61) lower))))), score = 40,
         msg = js ''Encoded redirect detected.''\<rparr>]
     @ [\<lparr>check = (\<lambda>_. Inr (hasHomoglyphs url)), score = 40,
         msg = js ''Foreign homoglyph characters detected.''\<rparr>]
     @ map (\<lambda>m. \<lparr>check = (\<lambda>_. on_defined host (\<lambda>h. includes_js h (bad m))), score = 45,
                 msg = js ''Typosquatting substitution: '' @ [39] @ bad m @ [39] @ js '' for '' @ [39] @ good m @ [39] @ js ''.''\<rparr>) numberMaps
     @ map (\<lambda>b. \<lparr>check = (\<lambda>_. similarity_check host b), score = 50,
                 msg = js ''Domain resembles '' @ [39] @ b @ [39] @ js '' '' @ [8212] @ js '' highly suspicious.''\<rparr>) baseBrands
     @ [\<lparr>check = (\<lambda>_. Inr (80 < length url)), score = 20,
         msg = js ''URL is unusually long.''\<rparr>]
     @ [\<lparr>check = (\<lambda>_. on_defined host (\<lambda>h. 3 < length (or_empty (match_all 46 h)))), score = 25,
         msg = js ''Excessive subdomains '' @ [8212] @ js '' common in phishing.''\<rparr>]"

text \<open>
  \<open>rules.forEach(rule => { if (rule.check()) { risk += rule.score;
  findings.push(rule.msg); } })\<close>: the state is \<open>(risk, findings)\<close>; an exception
  in a check ends the loop and the function.
\<close>

fun run_rules :: "rule list \<Rightarrow> int \<times> jsstring list \<Rightarrow> error + int \<times> jsstring list" where
  "run_rules [] st = Inr st"
| "run_rules (r # rs) (risk, findings) =
     (case check r () of
        Inl e \<Rightarrow> Inl e
      | Inr fired \<Rightarrow>
          run_rules rs (if fired then (risk + score r, findings @ [msg r]) else (risk, findings)))"

text \<open>Lines 84 to 87: the forms of the input that the rules look at.\<close>

record forms =
  url :: jsstring
  lower :: jsstring
  clean :: jsstring
  host :: "jsstring option"

definition comparison_forms :: "case_table \<Rightarrow> jsstring \<Rightarrow> forms" where
  "comparison_forms U inputUrl =
     (let u = trim inputUrl;
          l = toLowerCase U u;
          c = replace_at_start (replace_at_start l (match_scheme l))
                (match_www (replace_at_start l (match_scheme l)));
          h = at_index (split_where is_delimiter c) 0
      in \<lparr>url = u, lower = l, clean = c, host = h\<rparr>)"

datatype verdict = SAFE | SUSPICIOUS | UNSAFE

record AnalysisResult =
  score :: int
  safePercent :: int
  verdict :: verdict
  findings :: "jsstring list"

text \<open>Lines 197 to 204, from the total \<open>risk\<close> and the findings of the loop.\<close>

definition conclude :: "int \<Rightarrow> jsstring list \<Rightarrow> AnalysisResult" where
  "conclude risk found =
     (let s = min 100 risk;
          p = max 0 (100 - s);
          v = SAFE;
          v = (if p < 80 then SUSPICIOUS else v);
          v = (if p < 50 then UNSAFE else v)
      in \<lparr>score = s, safePercent = p, verdict = v, findings = found\<rparr>)"

text \<open>The pre-clamp total and the findings that the loop over the rules leaves.\<close>

definition evaluate :: "case_table \<Rightarrow> jsstring \<Rightarrow> error + int \<times> jsstring list" where
  "evaluate U inputUrl =
     (let f = comparison_forms U inputUrl
      in run_rules (rules (url f) (lower f) (host f)) (0, []))"

definition analyzeURL :: "case_table \<Rightarrow> jsstring \<Rightarrow> error + AnalysisResult" where
  "analyzeURL U inputUrl =
     (case evaluate U inputUrl of
        Inl e \<Rightarrow> Inl e
      | Inr (risk, found) \<Rightarrow> Inr (conclude risk found))"

text \<open>
  A rule fires when its check returns true; \<open>rules_for\<close> is the \<open>rules\<close> array that
  \<open>analyzeURL\<close> builds for an input.
\<close>

definition fired :: "rule \<Rightarrow> bool" where
  "fired r = (check r () = Inr True)"

definition rules_for :: "case_table \<Rightarrow> jsstring \<Rightarrow> rule list" where
  "rules_for U inputUrl =
     (let f = comparison_forms U inputUrl in rules (url f) (lower f) (host f))"

section \<open>Specification: edit distance\<close>

text \<open>
  The distance of the specification, independent of the table of the code: an edit
  script rewrites a string from left to right, keeping, substituting or deleting the
  next unit or inserting a new one; every step but keeping costs 1.
  \<open>edit_distance\<close> is the textbook recurrence on the heads of the two strings.
\<close>

datatype 'a edit = Keep | Substitute 'a | Insert 'a | Delete

fun apply_edits :: "'a edit list \<Rightarrow> 'a list \<Rightarrow> 'a list option" where
  "apply_edits [] xs = (if xs = [] then Some [] else None)"
| "apply_edits (Insert c # es) xs = map_option (Cons c) (apply_edits es xs)"
| "apply_edits (e # es) [] = None"
| "apply_edits (Keep # es) (x # xs) = map_option (Cons x) (apply_edits es xs)"
| "apply_edits (Substitute c # es) (x # xs) = map_option (Cons c) (apply_edits es xs)"
| "apply_edits (Delete # es) (x # xs) = apply_edits es xs"

fun edit_cost :: "'a edit \<Rightarrow> nat" where
  "edit_cost Keep = 0"
| "edit_cost e = 1"

definition cost :: "'a edit list \<Rightarrow> nat" where
  "cost es = sum_list (map edit_cost es)"

fun edit_distance :: "'a list \<Rightarrow> 'a list \<Rightarrow> nat" where
  "edit_distance [] ys = length ys"
| "edit_distance (x # xs) [] = Suc (length xs)"
| "edit_distance (x # xs) (y # ys) =
     min (min (edit_distance (x # xs) ys + 1) (edit_distance xs (y # ys) + 1))
         (edit_distance xs ys + (if x = y then 0 else 1))"

text \<open>
  What the table of \<open>levenshtein\<close> holds while it is filled: cell \<open>(i, j)\<close> is the
  distance between the first \<open>j\<close> units of \<open>a\<close> and the first \<open>i\<close> units of \<open>b\<close>;
  in \<open>table_state a b i j\<close> the rows above \<open>i\<close> are complete, row \<open>i\<close> has its
  first \<open>j\<close> cells and the rows below still have their first cell only.
\<close>

definition table_cell :: "jsstring \<Rightarrow> jsstring \<Rightarrow> nat \<Rightarrow> nat \<Rightarrow> nat" where
  "table_cell a b i j = edit_distance (rev (take j a)) (rev (take i b))"

definition table_row :: "jsstring \<Rightarrow> jsstring \<Rightarrow> nat \<Rightarrow> nat \<Rightarrow> cell list" where
  "table_row a b i n = map (\<lambda>j. Some (table_cell a b i j)) [0..<n]"

definition table_state :: "jsstring \<Rightarrow> jsstring \<Rightarrow> nat \<Rightarrow> nat \<Rightarrow> cell list list" where
  "table_state a b i j =
     map (\<lambda>r. table_row a b r (if r < i then Suc (length a) else if r = i then j else 1))
       [0..<length b + 1]"

section \<open>Specification: the comparison forms\<close>

text \<open>
  The normalisation steps in the words of the specification: strip an optional
  leading \<open>http://\<close> or \<open>https://\<close>, strip an optional leading \<open>www.\<close>, and take
  the host as the prefix that ends before the first \<open>/\<close>, \<open>?\<close> or \<open>#\<close>.
\<close>

definition spec_has_prefix :: "jsstring \<Rightarrow> jsstring \<Rightarrow> bool" where
  "spec_has_prefix p s = (take (length p) s = p)"

definition spec_strip_scheme :: "jsstring \<Rightarrow> jsstring" where
  "spec_strip_scheme s =
     (if spec_has_prefix (js ''http://'') s then drop (length (js ''http://'')) s
      else if spec_has_prefix (js ''https://'') s then drop (length (js ''https://'')) s
      else s)"

definition spec_strip_www :: "jsstring \<Rightarrow> jsstring" where
  "spec_strip_www s =
     (if spec_has_prefix (js ''www.'') s then drop (length (js ''www.'')) s else s)"

definition spec_host :: "jsstring \<Rightarrow> jsstring" where
  "spec_host s = takeWhile (\<lambda>c. c \<noteq> 47 \<and> c \<noteq> 63 \<and> c \<noteq> 35) s"

section \<open>The table of levenshtein computes the edit distance\<close>

lemma edit_distance_Nil2 [simp]: "edit_distance xs [] = length xs"
  by (cases xs) simp_all

lemma table_cell_0 [simp]: "i \<le> length b \<Longrightarrow> table_cell a b i 0 = i"
  by (simp add: table_cell_def)

lemma table_cell_row0 [simp]: "j \<le> length a \<Longrightarrow> table_cell a b 0 j = j"
  by (simp add: table_cell_def)

lemma table_cell_Suc:
  assumes "i < length b" "j < length a"
  shows "table_cell a b (Suc i) (Suc j) =
     min (min (table_cell a b i (Suc j) + 1) (table_cell a b (Suc i) j + 1))
         (table_cell a b i j + (if a ! j = b ! i then 0 else 1))"
  using assms by (simp add: table_cell_def take_Suc_conv_app_nth)

lemma length_table_state [simp]: "length (table_state a b i j) = Suc (length b)"
  by (simp add: table_state_def)

lemma nth_table_state:
  "r \<le> length b \<Longrightarrow> table_state a b i j ! r =
     table_row a b r (if r < i then Suc (length a) else if r = i then j else 1)"
  unfolding table_state_def by (simp add: nth_append less_Suc_eq_le del: upt_Suc)

lemma length_table_row [simp]: "length (table_row a b i n) = n"
  by (simp add: table_row_def)

lemma table_row_Suc: "table_row a b i (Suc n) = table_row a b i n @ [Some (table_cell a b i n)]"
  by (simp add: table_row_def)

lemma nth_table_row: "j < n \<Longrightarrow> table_row a b i n ! j = Some (table_cell a b i j)"
  by (simp add: table_row_def del: upt_Suc)

lemma table_state_update:
  assumes "i \<le> length b"
  shows "(table_state a b i j)[i := table_row a b i (Suc j)] = table_state a b i (Suc j)"
proof (rule nth_equalityI)
  show "length ((table_state a b i j)[i := table_row a b i (Suc j)]) = length (table_state a b i (Suc j))"
    by simp
next
  fix r assume "r < length ((table_state a b i j)[i := table_row a b i (Suc j)])"
  then have r: "r \<le> length b" by simp
  show "(table_state a b i j)[i := table_row a b i (Suc j)] ! r = table_state a b i (Suc j) ! r"
    using r assms by (cases "r = i") (simp_all add: nth_table_state nth_list_update)
qed

lemma table_state_next_row:
  "table_state a b i (Suc (length a)) = table_state a b (Suc i) 1"
  unfolding table_state_def by (rule map_cong) (auto simp: less_Suc_eq)

lemma initial_table: "map (\<lambda>i. [Some i]) [0..<length b + 1] = table_state a b 0 1"
  unfolding table_state_def table_row_def by (rule map_cong) (auto simp: less_Suc_eq_le)

lemma first_row_correct:
  assumes "1 \<le> j" "j \<le> Suc (length a)"
  shows "first_row (length a) j (table_state a b 0 j) = Inr (table_state a b 0 (Suc (length a)))"
  using assms
proof (induction "Suc (length a) - j" arbitrary: j)
  case 0
  then have "j = Suc (length a)" by simp
  then show ?case by (simp add: first_row.simps)
next
  case (Suc k)
  then have j: "j \<le> length a" by simp
  have row: "at_index (table_state a b 0 j) 0 = Some (table_row a b 0 j)"
    by (simp add: at_index_def nth_table_state)
  have w: "write_cell (table_row a b 0 j) j (Some j) = table_row a b 0 (Suc j)"
    using j by (simp add: write_cell_def table_row_Suc)
  have "first_row (length a) j (table_state a b 0 j)
      = first_row (length a) (Suc j) (table_state a b 0 (Suc j))"
    using j by (subst first_row.simps) (simp add: row w table_state_update)
  also have "\<dots> = Inr (table_state a b 0 (Suc (length a)))"
    using Suc.hyps(1) [of "Suc j"] Suc.hyps(2) j by simp
  finally show ?case .
qed

lemma fill_cell_correct:
  assumes "1 \<le> i" "i \<le> length b" "1 \<le> j" "j \<le> length a"
  shows "fill_cell a b i j (table_state a b i j) = Inr (table_state a b i (Suc j))"
proof -
  obtain i' j' where ij: "i = Suc i'" "j = Suc j'"
    using assms by (metis One_nat_def Suc_le_D)
  have row: "at_index (table_state a b i j) i = Some (table_row a b i j)"
    using assms by (simp add: at_index_def nth_table_state)
  have prev: "at_index (table_state a b i j) (i - 1) = Some (table_row a b i' (Suc (length a)))"
    using assms ij by (simp add: at_index_def nth_table_state)
  have c1: "read_cell (table_row a b i' (Suc (length a))) j = Some (table_cell a b i' j)"
    using assms by (simp add: read_cell_def at_index_def nth_table_row del: upt_Suc)
  have c2: "read_cell (table_row a b i j) (j - 1) = Some (table_cell a b i j')"
    using assms ij by (simp add: read_cell_def at_index_def nth_table_row del: upt_Suc)
  have c3: "read_cell (table_row a b i' (Suc (length a))) (j - 1) = Some (table_cell a b i' j')"
    using assms ij by (simp add: read_cell_def at_index_def nth_table_row del: upt_Suc)
  have eq: "(at_index a (j - 1) = at_index b (i - 1)) = (a ! j' = b ! i')"
    using assms ij by (simp add: at_index_def)
  have val: "min3 (plus_cell (Some (table_cell a b i' j)) 1)
                  (plus_cell (Some (table_cell a b i j')) 1)
                  (plus_cell (Some (table_cell a b i' j')) (if a ! j' = b ! i' then 0 else 1))
             = Some (table_cell a b i j)"
    using assms ij by (simp add: min3_def plus_cell_def table_cell_Suc)
  have w: "write_cell (table_row a b i j) j (Some (table_cell a b i j)) = table_row a b i (Suc j)"
    by (simp add: write_cell_def table_row_Suc)
  show ?thesis
    unfolding fill_cell_def
    by (simp only: row prev option.case c1 c2 c3 eq val w table_state_update [OF assms(2)])
qed

lemma inner_loop_correct:
  assumes "1 \<le> i" "i \<le> length b" "1 \<le> j" "j \<le> Suc (length a)"
  shows "inner_loop a b i j (table_state a b i j) = Inr (table_state a b i (Suc (length a)))"
  using assms(3,4)
proof (induction "Suc (length a) - j" arbitrary: j)
  case 0
  then have "j = Suc (length a)" by simp
  then show ?case by (simp add: inner_loop.simps)
next
  case (Suc k)
  then have j: "j \<le> length a" by simp
  have "inner_loop a b i j (table_state a b i j)
      = inner_loop a b i (Suc j) (table_state a b i (Suc j))"
    using j fill_cell_correct [OF assms(1,2) Suc.prems(1)] by (subst inner_loop.simps) simp
  also have "\<dots> = Inr (table_state a b i (Suc (length a)))"
    using Suc.hyps(1) [of "Suc j"] Suc.hyps(2) j by simp
  finally show ?case .
qed

lemma outer_loop_correct:
  assumes "1 \<le> i" "i \<le> Suc (length b)"
  shows "outer_loop a b i (table_state a b i 1) = Inr (table_state a b (Suc (length b)) 1)"
  using assms
proof (induction "Suc (length b) - i" arbitrary: i)
  case 0
  then have "i = Suc (length b)" by simp
  then show ?case by (simp add: outer_loop.simps)
next
  case (Suc k)
  then have i: "i \<le> length b" by simp
  have "outer_loop a b i (table_state a b i 1)
      = outer_loop a b (Suc i) (table_state a b (Suc i) 1)"
    using i Suc.prems(1) inner_loop_correct [where i = i and b = b and j = 1 and a = a]
      table_state_next_row [of a b i]
    by (subst outer_loop.simps) simp
  also have "\<dots> = Inr (table_state a b (Suc (length b)) 1)"
    using Suc.hyps(1) [of "Suc i"] Suc.hyps(2) i by simp
  finally show ?case .
qed

lemma levenshtein_table:
  "levenshtein a b = Inr (Some (edit_distance (rev a) (rev b)))"
proof -
  have 1: "first_row (length a) 1 (map (\<lambda>i. [Some i]) [0..<length b + 1]) = Inr (table_state a b 1 1)"
    unfolding initial_table [of b a]
    using first_row_correct [of 1 a b] table_state_next_row [of a b 0] by simp
  have 2: "outer_loop a b 1 (table_state a b 1 1) = Inr (table_state a b (Suc (length b)) 1)"
    using outer_loop_correct [of 1 b a] by simp
  have 3: "at_index (table_state a b (Suc (length b)) 1) (length b)
             = Some (table_row a b (length b) (Suc (length a)))"
    by (simp add: at_index_def nth_table_state)
  have 4: "read_cell (table_row a b (length b) (Suc (length a))) (length a)
             = Some (table_cell a b (length b) (length a))"
    by (simp add: read_cell_def at_index_def nth_table_row del: upt_Suc)
  have 5: "table_cell a b (length b) (length a) = edit_distance (rev a) (rev b)"
    by (simp add: table_cell_def)
  show ?thesis
    by (simp only: levenshtein_def Let_def 1 2 3 4 5 sum.case option.case)
qed

section \<open>The edit distance is the cost of a cheapest edit script\<close>

lemma cost_simps [simp]:
  "cost [] = 0" "cost (e # es) = edit_cost e + cost es" "cost (es @ fs) = cost es + cost fs"
  "cost (rev es) = cost es"
  by (simp_all add: cost_def rev_map [symmetric] sum_list_rev)

lemma edit_distance_insert: "edit_distance xs (y # ys) \<le> Suc (edit_distance xs ys)"
  by (cases xs) (simp_all add: min_le_iff_disj)

lemma edit_distance_delete: "edit_distance (x # xs) ys \<le> Suc (edit_distance xs ys)"
  by (cases ys) (simp_all add: min_le_iff_disj)

lemma edit_distance_substitute: "edit_distance (x # xs) (y # ys) \<le> Suc (edit_distance xs ys)"
  by (simp add: min_le_iff_disj)

lemma edit_distance_keep: "edit_distance (x # xs) (x # ys) \<le> edit_distance xs ys"
  by (simp add: min_le_iff_disj)

lemma edit_distance_le_cost:
  "apply_edits es xs = Some ys \<Longrightarrow> edit_distance xs ys \<le> cost es"
proof (induction es xs arbitrary: ys rule: apply_edits.induct)
  case (1 xs)
  then show ?case by (simp split: if_splits)
next
  case (2 c es xs)
  then obtain zs where "apply_edits es xs = Some zs" "ys = c # zs" by auto
  with 2 show ?case using edit_distance_insert [of xs c zs] by fastforce
next
  case (4 es x xs)
  then obtain zs where "apply_edits es xs = Some zs" "ys = x # zs" by auto
  with 4 show ?case using edit_distance_keep [of x xs zs] by fastforce
next
  case (5 c es x xs)
  then obtain zs where "apply_edits es xs = Some zs" "ys = c # zs" by auto
  with 5 show ?case using edit_distance_substitute [of x xs c zs] by fastforce
next
  case (6 es x xs)
  then show ?case using edit_distance_delete [of x xs ys] by fastforce
qed simp_all

lemma min_of_three:
  "min (min a b) c = a \<or> min (min a b) c = b \<or> min (min a b) c = (c::nat)"
  by (auto simp: min_def)

lemma insert_all: "apply_edits (map Insert ys) [] = Some ys \<and> cost (map Insert ys) = length ys"
  by (induction ys) simp_all

lemma delete_all:
  "apply_edits (replicate (length xs) Delete) xs = Some []
     \<and> cost (replicate (length xs) Delete) = length xs"
  by (induction xs) simp_all

lemma edit_distance_attained:
  "\<exists>es. apply_edits es xs = Some ys \<and> cost es = edit_distance xs ys"
proof (induction xs ys rule: edit_distance.induct)
  case (1 ys)
  show ?case using insert_all [of ys] by auto
next
  case (2 x xs)
  show ?case using delete_all [of "x # xs"] by (intro exI [of _ "replicate (length (x # xs)) Delete"]) simp
next
  case (3 x xs y ys)
  from 3 obtain e1 where e1: "apply_edits e1 (x # xs) = Some ys" "cost e1 = edit_distance (x # xs) ys"
    by blast
  from 3 obtain e2 where e2: "apply_edits e2 xs = Some (y # ys)" "cost e2 = edit_distance xs (y # ys)"
    by blast
  from 3 obtain e3 where e3: "apply_edits e3 xs = Some ys" "cost e3 = edit_distance xs ys"
    by blast
  let ?d = "edit_distance (x # xs) (y # ys)"
  consider (ins) "?d = edit_distance (x # xs) ys + 1"
    | (del) "?d = edit_distance xs (y # ys) + 1"
    | (sub) "?d = edit_distance xs ys + (if x = y then 0 else 1)"
    unfolding edit_distance.simps
    using min_of_three [of "edit_distance (x # xs) ys + 1" "edit_distance xs (y # ys) + 1"
        "edit_distance xs ys + (if x = y then 0 else 1)"]
    by blast
  then show ?case
  proof cases
    case ins
    then show ?thesis using e1 by (intro exI [of _ "Insert y # e1"]) simp
  next
    case del
    then show ?thesis using e2 by (intro exI [of _ "Delete # e2"]) simp
  next
    case sub
    then show ?thesis using e3
      by (intro exI [of _ "(if x = y then Keep else Substitute y) # e3"]) simp
  qed
qed

lemma apply_edits_append:
  "apply_edits es xs = Some ys \<Longrightarrow> apply_edits fs us = Some vs
     \<Longrightarrow> apply_edits (es @ fs) (xs @ us) = Some (ys @ vs)"
  by (induction es xs arbitrary: ys rule: apply_edits.induct) (auto split: if_splits)

lemma apply_edits_rev:
  "apply_edits es xs = Some ys \<Longrightarrow> apply_edits (rev es) (rev xs) = Some (rev ys)"
proof (induction es xs arbitrary: ys rule: apply_edits.induct)
  case (1 xs)
  then show ?case by (simp split: if_splits)
next
  case (2 c es xs)
  then obtain zs where z: "apply_edits es xs = Some zs" "ys = c # zs" by auto
  have "apply_edits (rev es @ [Insert c]) (rev xs @ []) = Some (rev zs @ [c])"
    by (rule apply_edits_append) (simp_all add: 2 z)
  then show ?case using z by simp
next
  case (4 es x xs)
  then obtain zs where z: "apply_edits es xs = Some zs" "ys = x # zs" by auto
  have "apply_edits (rev es @ [Keep]) (rev xs @ [x]) = Some (rev zs @ [x])"
    by (rule apply_edits_append) (simp_all add: 4 z)
  then show ?case using z by simp
next
  case (5 c es x xs)
  then obtain zs where z: "apply_edits es xs = Some zs" "ys = c # zs" by auto
  have "apply_edits (rev es @ [Substitute c]) (rev xs @ [x]) = Some (rev zs @ [c])"
    by (rule apply_edits_append) (simp_all add: 5 z)
  then show ?case using z by simp
next
  case (6 es x xs)
  have "apply_edits (rev es @ [Delete]) (rev xs @ [x]) = Some (rev ys @ [])"
    by (rule apply_edits_append) (use 6 in simp_all)
  then show ?case by simp
qed simp_all

lemma edit_distance_rev_le: "edit_distance (rev xs) (rev ys) \<le> edit_distance xs ys"
proof -
  obtain es where es: "apply_edits es xs = Some ys" "cost es = edit_distance xs ys"
    using edit_distance_attained by blast
  show ?thesis
    using edit_distance_le_cost [OF apply_edits_rev [OF es(1)]] es(2) by simp
qed

lemma edit_distance_rev: "edit_distance (rev xs) (rev ys) = edit_distance xs ys"
  using edit_distance_rev_le [of xs ys] edit_distance_rev_le [of "rev xs" "rev ys"] by simp

lemma edit_distance_sym: "edit_distance xs ys = edit_distance ys xs"
  by (induction xs ys rule: edit_distance.induct) (simp_all add: min.commute eq_commute)

lemma edit_distance_same: "edit_distance xs xs = 0"
  by (induction xs) simp_all

lemma levenshtein_edit_distance: "levenshtein a b = Inr (Some (edit_distance a b))"
  by (simp add: levenshtein_table edit_distance_rev)

lemma length_diff_le_edit_distance:
  "length xs - length ys \<le> edit_distance xs ys"
  by (induction xs ys rule: edit_distance.induct) auto

declare edit_distance.simps [simp del]

section \<open>The loop over the rules\<close>

lemma toLowerCase_ascii:
  assumes "list_all (\<lambda>c. c < 128) s"
  shows "toLowerCase U s = map lower_unit s"
proof -
  have "toLowerCase U s = concat (map (\<lambda>i. [lower_unit (s ! i)]) [0..<length s])"
    unfolding toLowerCase_def using assms
    by (intro arg_cong [where f = concat] map_cong) (auto simp: list_all_length)
  also have "\<dots> = map (\<lambda>i. lower_unit (s ! i)) [0..<length s]"
    by (rule concat_map_singleton)
  also have "\<dots> = map lower_unit s"
    by (rule nth_equalityI) simp_all
  finally show ?thesis .
qed

lemma similarity_far:
  assumes "length b + 2 < length h"
  shows "similarity_check (Some h) b = Inr False"
proof -
  have "length h - length b \<le> edit_distance h b" by (rule length_diff_le_edit_distance)
  with assms have "\<not> edit_distance h b \<le> 2" by simp
  then show ?thesis
    by (simp add: similarity_check_def levenshtein_edit_distance cell_le_def)
qed

lemmas data_defs = autoUnsafeTLDs_def highRiskBrands_def phishingClusters_def phishingWords_def
  deliveryWords_def numberMaps_def baseBrands_def

lemmas char_defs = is_white_def is_delimiter_def is_digit_def is_homoglyph_def is_base64_def
  is_hex_def lower_unit_def

lemma split_where_not_Nil: "split_where P s \<noteq> []"
  by (induction s) (auto split: list.splits)

lemma split_where_first: "at_index (split_where P s) 0 = Some (takeWhile (\<lambda>c. \<not> P c) s)"
proof (induction s)
  case Nil
  show ?case by (simp add: at_index_def)
next
  case (Cons c s)
  then show ?case
    using split_where_not_Nil [of P s]
    by (cases "split_where P s") (auto simp: at_index_def)
qed

lemma split_where_no_separator: "\<not> list_ex P s \<Longrightarrow> split_where P s = [s]"
  by (induction s) auto

lemma host_defined:
  "host (comparison_forms U s) = Some (takeWhile (\<lambda>c. \<not> is_delimiter c) (clean (comparison_forms U s)))"
  by (simp add: comparison_forms_def Let_def split_where_first)

lemma rules_checks_defined:
  "r \<in> set (rules u l (Some h)) \<Longrightarrow> \<exists>v. check r () = Inr v"
  by (auto simp: rules_def on_defined_def similarity_check_def levenshtein_edit_distance)

lemma rules_scores_positive: "r \<in> set (rules u l h) \<Longrightarrow> 0 < rule.score r"
  by (auto simp: rules_def)

lemma length_rules: "length (rules u l h) = 79"
  by (simp add: rules_def data_defs)

lemma run_rules_defined:
  assumes "\<And>r. r \<in> set rs \<Longrightarrow> \<exists>v. check r () = Inr v"
  shows "run_rules rs (risk, fs) =
     Inr (risk + sum_list (map rule.score (filter fired rs)), fs @ map msg (filter fired rs))"
  using assms
proof (induction rs arbitrary: risk fs)
  case Nil
  show ?case by simp
next
  case (Cons r rs)
  from Cons.prems [of r] obtain v where v: "check r () = Inr v" by auto
  have rest: "run_rules rs (k, gs) =
     Inr (k + sum_list (map rule.score (filter fired rs)), gs @ map msg (filter fired rs))" for k gs
    by (rule Cons.IH) (simp add: Cons.prems)
  have fr: "fired r = v" by (simp add: fired_def v)
  show ?case
    by (cases v) (simp_all add: v rest fr)
qed

lemma evaluate_fired:
  "evaluate U s = Inr (sum_list (map rule.score (filter fired (rules_for U s))),
                        map msg (filter fired (rules_for U s)))"
proof -
  obtain h where h: "host (comparison_forms U s) = Some h"
    using host_defined by blast
  have "run_rules (rules u l (Some h)) (0, []) =
     Inr (0 + sum_list (map rule.score (filter fired (rules u l (Some h)))),
          [] @ map msg (filter fired (rules u l (Some h))))" for u l
    by (rule run_rules_defined) (rule rules_checks_defined)
  then show ?thesis
    by (simp add: evaluate_def rules_for_def Let_def h)
qed

lemma sum_list_positive_zero:
  fixes f :: "'a \<Rightarrow> int"
  assumes "\<And>x. x \<in> set xs \<Longrightarrow> 0 < f x"
  shows "sum_list (map f xs) = 0 \<longleftrightarrow> xs = []"
proof (cases xs)
  case Nil
  then show ?thesis by simp
next
  case (Cons x ys)
  have "0 < f x" using assms Cons by simp
  moreover have "0 \<le> sum_list (map f ys)"
    by (rule sum_list_nonneg) (use assms Cons in \<open>auto simp: less_imp_le\<close>)
  ultimately show ?thesis using Cons by simp
qed

lemma fired_rules_positive:
  "r \<in> set (filter fired (rules_for U s)) \<Longrightarrow> 0 < rule.score r"
  by (auto simp: rules_for_def Let_def dest: rules_scores_positive)

lemma fired_total_zero:
  "sum_list (map rule.score (filter fired (rules_for U s))) = 0
     \<longleftrightarrow> filter fired (rules_for U s) = []"
  by (rule sum_list_positive_zero) (rule fired_rules_positive)

lemma fired_total_nonneg:
  "0 \<le> sum_list (map rule.score (filter fired (rules_for U s)))"
proof (rule sum_list_nonneg)
  fix x assume "x \<in> set (map rule.score (filter fired (rules_for U s)))"
  then obtain r where "r \<in> set (filter fired (rules_for U s))" "x = rule.score r" by auto
  then show "0 \<le> x" using fired_rules_positive [of r U s] by simp
qed

lemma analyzeURL_fired:
  "analyzeURL U s = Inr (conclude (sum_list (map rule.score (filter fired (rules_for U s))))
                                  (map msg (filter fired (rules_for U s))))"
  by (simp add: analyzeURL_def evaluate_fired)

lemma filter_map_rule:
  "filter fired (map (\<lambda>w. \<lparr>check = (\<lambda>_. Inr (P w)), score = k, msg = m w\<rparr>) ws)
     = map (\<lambda>w. \<lparr>check = (\<lambda>_. Inr (P w)), score = k, msg = m w\<rparr>) (filter P ws)"
  by (induction ws) (simp_all add: fired_def)

lemma filter_single_rule:
  "filter fired [\<lparr>check = (\<lambda>_. Inr p), score = k, msg = m\<rparr>]
     = (if p then [\<lparr>check = (\<lambda>_. Inr p), score = k, msg = m\<rparr>] else [])"
  by (simp add: fired_def)

lemma sum_list_const: "sum_list (map (\<lambda>x. k) xs) = k * int (length xs)"
  by (induction xs) (simp_all add: algebra_simps)

lemma similarity_check_Some:
  "similarity_check (Some h) b = Inr (edit_distance h b \<le> 2 \<and> \<not> endsWith h (b @ js ''.com''))"
  by (simp add: similarity_check_def levenshtein_edit_distance cell_le_def)

lemma evaluate_groups:
  assumes "comparison_forms U s = \<lparr>url = u, lower = l, clean = c, host = Some h\<rparr>"
  shows "evaluate U s = Inr
    (90 * int (length (filter (\<lambda>tld. includes_js h tld) autoUnsafeTLDs))
     + (if 4 \<le> length (or_empty (match_all 45 h)) then 40 else 0)
     + 50 * int (length (filter (\<lambda>brand. includes_js h brand) highRiskBrands))
     + 50 * int (length (filter (\<lambda>cluster. 2 \<le> length (filter (\<lambda>w. includes_js l w) cluster)) phishingClusters))
     + 25 * int (length (filter (\<lambda>word. includes_js h word) phishingWords))
     + (if digit_run h then 25 else 0)
     + 40 * int (length (filter (\<lambda>word. includes_js l word) deliveryWords))
     + (if looksEncoded (to_string (pop (split_where (\<lambda>c. c = 61) l))) then 40 else 0)
     + (if hasHomoglyphs u then 40 else 0)
     + 45 * int (length (filter (\<lambda>m. includes_js h (bad m)) numberMaps))
     + 50 * int (length (filter (\<lambda>b. edit_distance h b \<le> 2 \<and> \<not> endsWith h (b @ js ''.com'')) baseBrands))
     + (if 80 < length u then 20 else 0)
     + (if 3 < length (or_empty (match_all 46 h)) then 25 else 0),
     map (\<lambda>tld. js ''Domain uses high-risk TLD '' @ [39] @ tld @ [39] @ js ''.'')
        (filter (\<lambda>tld. includes_js h tld) autoUnsafeTLDs)
     @ (if 4 \<le> length (or_empty (match_all 45 h))
        then [js ''Excessive hyphens indicate synthetic phishing.''] else [])
     @ map (\<lambda>brand. js ''Brand impersonation detected: '' @ [39] @ brand @ [39] @ js ''.'')
        (filter (\<lambda>brand. includes_js h brand) highRiskBrands)
     @ map (\<lambda>cluster. js ''Phishing keyword cluster detected: '' @ join (js '' + '') cluster)
        (filter (\<lambda>cluster. 2 \<le> length (filter (\<lambda>w. includes_js l w) cluster)) phishingClusters)
     @ map (\<lambda>word. js ''Suspicious keyword detected: '' @ [39] @ word @ [39] @ js ''.'')
        (filter (\<lambda>word. includes_js h word) phishingWords)
     @ (if digit_run h then [js ''Suspicious numeric token detected.''] else [])
     @ map (\<lambda>word. js ''Delivery scam pattern: '' @ [39] @ word @ [39] @ js ''.'')
        (filter (\<lambda>word. includes_js l word) deliveryWords)
     @ (if looksEncoded (to_string (pop (split_where (\<lambda>c. c = 61) l)))
        then [js ''Encoded redirect detected.''] else [])
     @ (if hasHomoglyphs u then [js ''Foreign homoglyph characters detected.''] else [])
     @ map (\<lambda>m. js ''Typosquatting substitution: '' @ [39] @ bad m @ [39] @ js '' for '' @ [39] @ good m @ [39] @ js ''.'')
        (filter (\<lambda>m. includes_js h (bad m)) numberMaps)
     @ map (\<lambda>b. js ''Domain resembles '' @ [39] @ b @ [39] @ js '' '' @ [8212] @ js '' highly suspicious.'')
        (filter (\<lambda>b. edit_distance h b \<le> 2 \<and> \<not> endsWith h (b @ js ''.com'')) baseBrands)
     @ (if 80 < length u then [js ''URL is unusually long.''] else [])
     @ (if 3 < length (or_empty (match_all 46 h))
        then [js ''Excessive subdomains '' @ [8212] @ js '' common in phishing.''] else []))"
  unfolding evaluate_fired rules_for_def assms Let_def forms.simps rules_def on_defined_def
    option.case similarity_check_Some filter_append filter_map_rule filter_single_rule
  by (simp add: comp_def sum_list_const)

section \<open>The comparison forms\<close>

lemma startsWith_take: "startsWith s p \<longleftrightarrow> take (length p) s = p"
  by (induction s p rule: startsWith.induct) auto

lemma spec_has_prefix_iff: "spec_has_prefix p s = startsWith s p"
  by (simp add: spec_has_prefix_def startsWith_take)

lemma startsWith_append:
  "startsWith s (p @ q) \<longleftrightarrow> startsWith s p \<and> startsWith (drop (length p) s) q"
  by (induction s p rule: startsWith.induct) auto

lemma replace_scheme_spec:
  "replace_at_start s (match_scheme s) = spec_strip_scheme s"
proof -
  have l: "length (js ''http'') = 4" "length (js ''http://'') = 7" "length (js ''https://'') = 8"
    by (simp_all add: js_def)
  have j1: "js ''http'' @ js ''://'' = js ''http://''" by (simp add: js_def)
  have j2: "js ''http'' @ js ''s://'' = js ''https://''" by (simp add: js_def)
  have a: "startsWith s (js ''http://'')
       \<longleftrightarrow> startsWith s (js ''http'') \<and> startsWith (drop 4 s) (js ''://'')"
    using startsWith_append [of s "js ''http''" "js ''://''"] unfolding j1 l(1) .
  have b: "startsWith s (js ''https://'')
       \<longleftrightarrow> startsWith s (js ''http'') \<and> startsWith (drop 4 s) (js ''s://'')"
    using startsWith_append [of s "js ''http''" "js ''s://''"] unfolding j2 l(1) .
  have c: "\<not> (startsWith t (js ''://'') \<and> startsWith t (js ''s://''))" for t
    by (cases t) (simp_all add: js_def)
  show ?thesis
    unfolding replace_at_start_def match_scheme_def spec_strip_scheme_def spec_has_prefix_iff l a b
    using c [of "drop 4 s"] by auto
qed

lemma replace_www_spec: "replace_at_start s (match_www s) = spec_strip_www s"
proof -
  have l: "length (js ''www.'') = 4" by (simp add: js_def)
  show ?thesis
    unfolding replace_at_start_def match_www_def spec_strip_www_def spec_has_prefix_iff l
    by simp
qed

lemma comparison_forms_spec:
  "comparison_forms U s =
     \<lparr>url = trim s,
      lower = toLowerCase U (trim s),
      clean = spec_strip_www (spec_strip_scheme (toLowerCase U (trim s))),
      host = Some (spec_host (spec_strip_www (spec_strip_scheme (toLowerCase U (trim s)))))\<rparr>"
  by (simp add: comparison_forms_def Let_def replace_scheme_spec replace_www_spec
      split_where_first spec_host_def is_delimiter_def)

section \<open>Running the scenario inputs\<close>

text \<open>
  The inputs of the scenarios, run through the model: the comparison forms, the
  matches of each group of rules, and from them the total and the findings.
\<close>

lemmas table_defs = levenshtein_def first_row.simps outer_loop.simps inner_loop.simps
  fill_cell_def at_index_def read_cell_def write_cell_def plus_cell_def min3_def

lemma length_js: "length (js cs) = length cs"
  by (simp add: js_def)

lemma not_close:
  "length b + 2 < length h \<Longrightarrow> (edit_distance h b \<le> 2) = False"
  using length_diff_le_edit_distance [of h b] by simp

lemma empty_forms:
  "comparison_forms U [] = \<lparr>url = [], lower = [], clean = [], host = Some []\<rparr>"
  by (simp add: comparison_forms_def trim_def toLowerCase_def replace_at_start_def
      match_scheme_def match_www_def at_index_def js_def Let_def)

lemma empty_evaluate: "evaluate U [] = Inr (0, [])"
  by (simp add: evaluate_groups [OF empty_forms] data_defs js_def edit_distance.simps
      or_empty_def match_all_def looksEncoded_def base64_padded_def to_string_def pop_def
      hasHomoglyphs_def)

lemma paypa1_forms:
  "comparison_forms U (js ''http://www.paypa1-login-secure-verify.com'') =
     \<lparr>url = js ''http://www.paypa1-login-secure-verify.com'', lower = js ''http://www.paypa1-login-secure-verify.com'',
      clean = js ''paypa1-login-secure-verify.com'', host = Some (js ''paypa1-login-secure-verify.com'')\<rparr>"
  by (simp add: comparison_forms_def trim_def toLowerCase_ascii js_def char_defs
      replace_at_start_def match_scheme_def match_www_def at_index_def Let_def)

lemma paypa1_tlds:
  "filter (\<lambda>tld. includes_js (js ''paypa1-login-secure-verify.com'') tld) autoUnsafeTLDs = []"
  by (simp add: js_def autoUnsafeTLDs_def)

lemma paypa1_brands:
  "filter (\<lambda>brand. includes_js (js ''paypa1-login-secure-verify.com'') brand) highRiskBrands = []"
  by (simp add: js_def highRiskBrands_def)

lemma paypa1_clusters:
  "filter (\<lambda>cluster. 2 \<le> length (filter (\<lambda>w. includes_js (js ''http://www.paypa1-login-secure-verify.com'') w) cluster))
     phishingClusters = [[js ''login'', js ''verify'']]"
  by (simp add: js_def phishingClusters_def)

lemma paypa1_words:
  "filter (\<lambda>word. includes_js (js ''paypa1-login-secure-verify.com'') word) phishingWords = [js ''login'', js ''verify'', js ''secure'']"
  by (simp add: js_def phishingWords_def)

lemma paypa1_delivery:
  "filter (\<lambda>word. includes_js (js ''http://www.paypa1-login-secure-verify.com'') word) deliveryWords = []"
  by (simp add: js_def deliveryWords_def)

lemma paypa1_digits:
  "filter (\<lambda>m. includes_js (js ''paypa1-login-secure-verify.com'') (bad m)) numberMaps
     = [\<lparr>bad = js ''1'', good = js ''l''\<rparr>]"
  by (simp add: js_def numberMaps_def)

lemma paypa1_similar:
  "filter (\<lambda>b. edit_distance (js ''paypa1-login-secure-verify.com'') b \<le> 2 \<and> \<not> endsWith (js ''paypa1-login-secure-verify.com'') (b @ js ''.com''))
     baseBrands = []"
  by (simp add: baseBrands_def not_close length_js )

lemma paypa1_single:
  "length (or_empty (match_all 45 (js ''paypa1-login-secure-verify.com''))) = 3"
  "length (or_empty (match_all 46 (js ''paypa1-login-secure-verify.com''))) = 1"
  "digit_run (js ''paypa1-login-secure-verify.com'') = False"
  "looksEncoded (to_string (pop (split_where (\<lambda>c. c = 61) (js ''http://www.paypa1-login-secure-verify.com'')))) = False"
  "hasHomoglyphs (js ''http://www.paypa1-login-secure-verify.com'') = False"
  "length (js ''http://www.paypa1-login-secure-verify.com'') = 41"
  by (simp_all add: js_def or_empty_def match_all_def char_defs looksEncoded_def base64_padded_def
      to_string_def pop_def hasHomoglyphs_def)

lemma paypa1_evaluate:
  "evaluate U (js ''http://www.paypa1-login-secure-verify.com'') =
     Inr (170,
      [js ''Phishing keyword cluster detected: login + verify'',
       js ''Suspicious keyword detected: '' @ [39] @ js ''login'' @ [39] @ js ''.'',
       js ''Suspicious keyword detected: '' @ [39] @ js ''verify'' @ [39] @ js ''.'',
       js ''Suspicious keyword detected: '' @ [39] @ js ''secure'' @ [39] @ js ''.'',
       js ''Typosquatting substitution: '' @ [39] @ js ''1'' @ [39] @ js '' for '' @ [39] @ js ''l'' @ [39] @ js ''.''])"
  apply (simp add: evaluate_groups [OF paypa1_forms] paypa1_tlds paypa1_brands paypa1_clusters paypa1_words paypa1_delivery paypa1_digits paypa1_similar paypa1_single)
  apply (simp add: js_def)
  done

lemma go0gle_forms:
  "comparison_forms U (js ''http://go0gle.com'') =
     \<lparr>url = js ''http://go0gle.com'', lower = js ''http://go0gle.com'',
      clean = js ''go0gle.com'', host = Some (js ''go0gle.com'')\<rparr>"
  by (simp add: comparison_forms_def trim_def toLowerCase_ascii js_def char_defs
      replace_at_start_def match_scheme_def match_www_def at_index_def Let_def)

lemma go0gle_tlds:
  "filter (\<lambda>tld. includes_js (js ''go0gle.com'') tld) autoUnsafeTLDs = []"
  by (simp add: js_def autoUnsafeTLDs_def)

lemma go0gle_brands:
  "filter (\<lambda>brand. includes_js (js ''go0gle.com'') brand) highRiskBrands = []"
  by (simp add: js_def highRiskBrands_def)

lemma go0gle_clusters:
  "filter (\<lambda>cluster. 2 \<le> length (filter (\<lambda>w. includes_js (js ''http://go0gle.com'') w) cluster))
     phishingClusters = []"
  by (simp add: js_def phishingClusters_def)

lemma go0gle_words:
  "filter (\<lambda>word. includes_js (js ''go0gle.com'') word) phishingWords = []"
  by (simp add: js_def phishingWords_def)

lemma go0gle_delivery:
  "filter (\<lambda>word. includes_js (js ''http://go0gle.com'') word) deliveryWords = []"
  by (simp add: js_def deliveryWords_def)

lemma go0gle_digits:
  "filter (\<lambda>m. includes_js (js ''go0gle.com'') (bad m)) numberMaps
     = [\<lparr>bad = js ''0'', good = js ''o''\<rparr>]"
  by (simp add: js_def numberMaps_def)

lemma go0gle_distance_facebook: "edit_distance (js ''go0gle.com'') (js ''facebook'') = 8"
proof -
  have "levenshtein (js ''go0gle.com'') (js ''facebook'') = Inr (Some 8)"
    by (simp add: js_def table_defs)
  then show ?thesis by (simp add: levenshtein_edit_distance)
qed

lemma go0gle_distance_microsoft: "edit_distance (js ''go0gle.com'') (js ''microsoft'') = 10"
proof -
  have "levenshtein (js ''go0gle.com'') (js ''microsoft'') = Inr (Some 10)"
    by (simp add: js_def table_defs)
  then show ?thesis by (simp add: levenshtein_edit_distance)
qed

lemma go0gle_similar:
  "filter (\<lambda>b. edit_distance (js ''go0gle.com'') b \<le> 2 \<and> \<not> endsWith (js ''go0gle.com'') (b @ js ''.com''))
     baseBrands = []"
  by (simp add: baseBrands_def not_close length_js go0gle_distance_facebook go0gle_distance_microsoft)

lemma go0gle_single:
  "length (or_empty (match_all 45 (js ''go0gle.com''))) = 0"
  "length (or_empty (match_all 46 (js ''go0gle.com''))) = 1"
  "digit_run (js ''go0gle.com'') = False"
  "looksEncoded (to_string (pop (split_where (\<lambda>c. c = 61) (js ''http://go0gle.com'')))) = False"
  "hasHomoglyphs (js ''http://go0gle.com'') = False"
  "length (js ''http://go0gle.com'') = 17"
  by (simp_all add: js_def or_empty_def match_all_def char_defs looksEncoded_def base64_padded_def
      to_string_def pop_def hasHomoglyphs_def)

lemma go0gle_evaluate:
  "evaluate U (js ''http://go0gle.com'') =
     Inr (45,
      [js ''Typosquatting substitution: '' @ [39] @ js ''0'' @ [39] @ js '' for '' @ [39] @ js ''o'' @ [39] @ js ''.''])"
  by (simp add: evaluate_groups [OF go0gle_forms] go0gle_tlds go0gle_brands go0gle_clusters go0gle_words go0gle_delivery go0gle_digits go0gle_similar go0gle_single)

lemma long_forms:
  "comparison_forms U (js ''wikipedia.org/aaaaaaaaaaaaaaaaaaaaaaaaaaaaaaaaaaaaaaaaaaaaaaaaaaaaaaaaaaaaaaaaaaaaaaa'') =
     \<lparr>url = js ''wikipedia.org/aaaaaaaaaaaaaaaaaaaaaaaaaaaaaaaaaaaaaaaaaaaaaaaaaaaaaaaaaaaaaaaaaaaaaaa'', lower = js ''wikipedia.org/aaaaaaaaaaaaaaaaaaaaaaaaaaaaaaaaaaaaaaaaaaaaaaaaaaaaaaaaaaaaaaaaaaaaaaa'',
      clean = js ''wikipedia.org/aaaaaaaaaaaaaaaaaaaaaaaaaaaaaaaaaaaaaaaaaaaaaaaaaaaaaaaaaaaaaaaaaaaaaaa'', host = Some (js ''wikipedia.org'')\<rparr>"
  by (simp add: comparison_forms_def trim_def toLowerCase_ascii js_def char_defs
      replace_at_start_def match_scheme_def match_www_def at_index_def Let_def)

lemma long_tlds:
  "filter (\<lambda>tld. includes_js (js ''wikipedia.org'') tld) autoUnsafeTLDs = []"
  by (simp add: js_def autoUnsafeTLDs_def)

lemma long_brands:
  "filter (\<lambda>brand. includes_js (js ''wikipedia.org'') brand) highRiskBrands = []"
  by (simp add: js_def highRiskBrands_def)

lemma long_clusters:
  "filter (\<lambda>cluster. 2 \<le> length (filter (\<lambda>w. includes_js (js ''wikipedia.org/aaaaaaaaaaaaaaaaaaaaaaaaaaaaaaaaaaaaaaaaaaaaaaaaaaaaaaaaaaaaaaaaaaaaaaa'') w) cluster))
     phishingClusters = []"
  by (simp add: js_def phishingClusters_def)

lemma long_words:
  "filter (\<lambda>word. includes_js (js ''wikipedia.org'') word) phishingWords = []"
  by (simp add: js_def phishingWords_def)

lemma long_delivery:
  "filter (\<lambda>word. includes_js (js ''wikipedia.org/aaaaaaaaaaaaaaaaaaaaaaaaaaaaaaaaaaaaaaaaaaaaaaaaaaaaaaaaaaaaaaaaaaaaaaa'') word) deliveryWords = []"
  by (simp add: js_def deliveryWords_def)

lemma long_digits:
  "filter (\<lambda>m. includes_js (js ''wikipedia.org'') (bad m)) numberMaps
     = []"
  by (simp add: js_def numberMaps_def)

lemma long_similar:
  "filter (\<lambda>b. edit_distance (js ''wikipedia.org'') b \<le> 2 \<and> \<not> endsWith (js ''wikipedia.org'') (b @ js ''.com''))
     baseBrands = []"
  by (simp add: baseBrands_def not_close length_js )

lemma long_single:
  "length (or_empty (match_all 45 (js ''wikipedia.org''))) = 0"
  "length (or_empty (match_all 46 (js ''wikipedia.org''))) = 1"
  "digit_run (js ''wikipedia.org'') = False"
  "looksEncoded (to_string (pop (split_where (\<lambda>c. c = 61) (js ''wikipedia.org/aaaaaaaaaaaaaaaaaaaaaaaaaaaaaaaaaaaaaaaaaaaaaaaaaaaaaaaaaaaaaaaaaaaaaaa'')))) = False"
  "hasHomoglyphs (js ''wikipedia.org/aaaaaaaaaaaaaaaaaaaaaaaaaaaaaaaaaaaaaaaaaaaaaaaaaaaaaaaaaaaaaaaaaaaaaaa'') = False"
  "length (js ''wikipedia.org/aaaaaaaaaaaaaaaaaaaaaaaaaaaaaaaaaaaaaaaaaaaaaaaaaaaaaaaaaaaaaaaaaaaaaaa'') = 85"
  by (simp_all add: js_def or_empty_def match_all_def char_defs looksEncoded_def base64_padded_def
      to_string_def pop_def hasHomoglyphs_def)

lemma long_evaluate:
  "evaluate U (js ''wikipedia.org/aaaaaaaaaaaaaaaaaaaaaaaaaaaaaaaaaaaaaaaaaaaaaaaaaaaaaaaaaaaaaaaaaaaaaaa'') =
     Inr (20,
      [js ''URL is unusually long.''])"
  by (simp add: evaluate_groups [OF long_forms] long_tlds long_brands long_clusters long_words long_delivery long_digits long_similar long_single)

section \<open>The claims\<close>

lemma conclude_fields:
  "score (conclude k fs) = min 100 k"
  "safePercent (conclude k fs) = 100 - min 100 k"
  "verdict (conclude k fs) =
     (if 100 - min 100 k < 50 then UNSAFE else if 100 - min 100 k < 80 then SUSPICIOUS else SAFE)"
  "findings (conclude k fs) = fs"
  by (simp_all add: conclude_def Let_def)

lemma analyzeURL_evaluate:
  "evaluate U s = Inr (k, fs) \<Longrightarrow> analyzeURL U s = Inr (conclude k fs)"
  by (simp add: analyzeURL_def)

text \<open>
  C1: for every string \<open>s\<close>, \<open>analyzeURL(s)\<close> returns a result whose score is
  \<open>min(100, sum of the weights of the rules whose predicate is true)\<close>, so the score
  lies between 0 and 100, and \<open>safePercent = 100 - score\<close> exactly, that is
  \<open>safePercent + score = 100\<close>.
\<close>

theorem analyzeURL_score_is_clamped_sum:
  "\<exists>r. analyzeURL U s = Inr r
      \<and> score r = min 100 (sum_list (map rule.score (filter fired (rules_for U s))))
      \<and> 0 \<le> score r \<and> score r \<le> 100
      \<and> safePercent r = 100 - score r
      \<and> safePercent r + score r = 100"
  using fired_total_nonneg [of U s]
  by (simp add: analyzeURL_fired conclude_fields)

theorem analyzeURL_score_is_clamped_sum_witness:
  "\<exists>r. analyzeURL (\<lambda>s i. [s ! i]) (js ''http://www.paypa1-login-secure-verify.com'') = Inr r
      \<and> sum_list (map rule.score (filter fired
            (rules_for (\<lambda>s i. [s ! i]) (js ''http://www.paypa1-login-secure-verify.com'')))) = 170
      \<and> score r = 100 \<and> safePercent r = 0"
proof -
  let ?U = "\<lambda>(s::jsstring) (i::nat). [s ! i]"
  let ?s = "js ''http://www.paypa1-login-secure-verify.com''"
  have total: "sum_list (map rule.score (filter fired (rules_for ?U ?s))) = 170"
    using evaluate_fired [of ?U ?s] paypa1_evaluate [of ?U] by simp
  from analyzeURL_score_is_clamped_sum [of ?U ?s] obtain r where
    r: "analyzeURL ?U ?s = Inr r"
       "score r = min 100 (sum_list (map rule.score (filter fired (rules_for ?U ?s))))"
       "safePercent r = 100 - score r"
    by blast
  from r(2) total have "score r = 100" by simp
  with r(1,3) total show ?thesis by simp
qed

text \<open>
  C2: for every string the verdict is SAFE iff \<open>safePercent \<ge> 80\<close>, SUSPICIOUS iff
  \<open>50 \<le> safePercent < 80\<close> and UNSAFE iff \<open>safePercent < 50\<close>. In particular there is
  an input of length 85 of otherwise benign characters on which only the Long URL rule
  fires: score 20, safePercent exactly 80, verdict SAFE.
\<close>

theorem analyzeURL_verdict_thresholds:
  "(\<exists>r. analyzeURL U s = Inr r
       \<and> (verdict r = SAFE \<longleftrightarrow> 80 \<le> safePercent r)
       \<and> (verdict r = SUSPICIOUS \<longleftrightarrow> 50 \<le> safePercent r \<and> safePercent r < 80)
       \<and> (verdict r = UNSAFE \<longleftrightarrow> safePercent r < 50))
   \<and> length (js ''wikipedia.org/aaaaaaaaaaaaaaaaaaaaaaaaaaaaaaaaaaaaaaaaaaaaaaaaaaaaaaaaaaaaaaaaaaaaaaa'') = 85
   \<and> analyzeURL U (js ''wikipedia.org/aaaaaaaaaaaaaaaaaaaaaaaaaaaaaaaaaaaaaaaaaaaaaaaaaaaaaaaaaaaaaaaaaaaaaaa'') =
       Inr \<lparr>score = 20, safePercent = 80, verdict = SAFE,
            findings = [js ''URL is unusually long.'']\<rparr>"
proof (intro conjI)
  show "\<exists>r. analyzeURL U s = Inr r
       \<and> (verdict r = SAFE \<longleftrightarrow> 80 \<le> safePercent r)
       \<and> (verdict r = SUSPICIOUS \<longleftrightarrow> 50 \<le> safePercent r \<and> safePercent r < 80)
       \<and> (verdict r = UNSAFE \<longleftrightarrow> safePercent r < 50)"
    by (auto simp: analyzeURL_fired conclude_fields min_def)
  show "length (js ''wikipedia.org/aaaaaaaaaaaaaaaaaaaaaaaaaaaaaaaaaaaaaaaaaaaaaaaaaaaaaaaaaaaaaaaaaaaaaaa'') = 85"
    by (simp add: length_js)
  show "analyzeURL U (js ''wikipedia.org/aaaaaaaaaaaaaaaaaaaaaaaaaaaaaaaaaaaaaaaaaaaaaaaaaaaaaaaaaaaaaaaaaaaaaaa'') =
       Inr \<lparr>score = 20, safePercent = 80, verdict = SAFE,
            findings = [js ''URL is unusually long.'']\<rparr>"
    by (simp add: analyzeURL_evaluate [OF long_evaluate] conclude_def)
qed

theorem analyzeURL_verdict_thresholds_witness:
  "\<exists>r. analyzeURL (\<lambda>s i. [s ! i]) (js ''http://go0gle.com'') = Inr r
      \<and> safePercent r = 55 \<and> verdict r = SUSPICIOUS"
proof -
  let ?U = "\<lambda>(s::jsstring) (i::nat). [s ! i]"
  let ?s = "js ''http://go0gle.com''"
  from analyzeURL_verdict_thresholds [of ?U ?s] obtain r where
    r: "analyzeURL ?U ?s = Inr r"
       "verdict r = SUSPICIOUS \<longleftrightarrow> 50 \<le> safePercent r \<and> safePercent r < 80"
    by blast
  have "analyzeURL ?U ?s = Inr (conclude 45
      [js ''Typosquatting substitution: '' @ [39] @ js ''0'' @ [39] @ js '' for '' @ [39] @ js ''o'' @ [39] @ js ''.''])"
    by (rule analyzeURL_evaluate [OF go0gle_evaluate])
  with r(1) have "r = conclude 45
      [js ''Typosquatting substitution: '' @ [39] @ js ''0'' @ [39] @ js '' for '' @ [39] @ js ''o'' @ [39] @ js ''.'']"
    by simp
  then have "safePercent r = 55" by (simp add: conclude_fields)
  with r show ?thesis by simp
qed

text \<open>
  C4: \<open>levenshtein(a, b)\<close> returns a number, and that number is the minimum edit
  distance between \<open>a\<close> and \<open>b\<close> under unit-cost insertions, deletions and
  substitutions: some edit script turning \<open>a\<close> into \<open>b\<close> has that cost and none has a
  smaller one. In particular \<open>levenshtein(a, a) = 0\<close>, \<open>levenshtein("", b)\<close> is the
  length of \<open>b\<close>, and \<open>levenshtein(a, b) = levenshtein(b, a)\<close>.
\<close>

theorem levenshtein_minimum_edit_distance:
  "\<exists>d. levenshtein a b = Inr (Some d)
      \<and> (\<exists>es. apply_edits es a = Some b \<and> cost es = d)
      \<and> (\<forall>es. apply_edits es a = Some b \<longrightarrow> d \<le> cost es)
      \<and> levenshtein a a = Inr (Some 0)
      \<and> levenshtein [] b = Inr (Some (length b))
      \<and> levenshtein a b = levenshtein b a"
proof (intro exI [of _ "edit_distance a b"] conjI allI impI)
  show "levenshtein a b = Inr (Some (edit_distance a b))"
    by (rule levenshtein_edit_distance)
  show "\<exists>es. apply_edits es a = Some b \<and> cost es = edit_distance a b"
    by (rule edit_distance_attained)
  show "edit_distance a b \<le> cost es" if "apply_edits es a = Some b" for es
    using that by (rule edit_distance_le_cost)
  show "levenshtein a a = Inr (Some 0)"
    by (simp add: levenshtein_edit_distance edit_distance_same)
  show "levenshtein [] b = Inr (Some (length b))"
    by (simp add: levenshtein_edit_distance edit_distance.simps)
  show "levenshtein a b = levenshtein b a"
    using edit_distance_sym [of a b] by (simp add: levenshtein_edit_distance)
qed

theorem levenshtein_minimum_edit_distance_witness:
  "levenshtein (js ''kitten'') (js ''sitting'') = Inr (Some 3)
     \<and> apply_edits [Substitute 115, Keep, Keep, Keep, Substitute 105, Keep, Insert 103]
          (js ''kitten'') = Some (js ''sitting'')
     \<and> 3 \<le> cost [Substitute 115, Keep, Keep, Keep, Substitute 105, Keep, Insert (103::nat)]
     \<and> levenshtein (js ''sitting'') (js ''kitten'') = Inr (Some 3)"
proof -
  let ?es = "[Substitute 115, Keep, Keep, Keep, Substitute 105, Keep, Insert (103::nat)]"
  have run: "levenshtein (js ''kitten'') (js ''sitting'') = Inr (Some 3)"
    by (simp add: js_def table_defs)
  have script: "apply_edits ?es (js ''kitten'') = Some (js ''sitting'')"
    by (simp add: js_def)
  from levenshtein_minimum_edit_distance [of "js ''kitten''" "js ''sitting''"]
  obtain d where d: "levenshtein (js ''kitten'') (js ''sitting'') = Inr (Some d)"
      "\<forall>es. apply_edits es (js ''kitten'') = Some (js ''sitting'') \<longrightarrow> d \<le> cost es"
      "levenshtein (js ''kitten'') (js ''sitting'') = levenshtein (js ''sitting'') (js ''kitten'')"
    by blast
  from d(1) run have "d = 3" by simp
  with d(2) script have "3 \<le> cost ?es" by blast
  with run script d(3) show ?thesis by simp
qed

lemma startsWith_length: "startsWith s p \<Longrightarrow> length p \<le> length s"
  by (induction s p rule: startsWith.induct) (auto split: if_splits)

text \<open>
  The guard \<open>!host.endsWith(`${b}.com`)\<close> of a similarity rule never decides: a host
  that ends with \<open>b.com\<close> is at least four units longer than \<open>b\<close>, so its distance
  to \<open>b\<close> is above 2 already. The rule compares the whole host, top-level domain
  included, with the bare brand name.
\<close>

lemma similarity_guard_never_decides:
  "similarity_check (Some h) b = Inr (edit_distance h b \<le> 2)"
proof (cases "endsWith h (b @ js ''.com'')")
  case True
  then have "length (b @ js ''.com'') \<le> length h"
    using startsWith_length [of "rev h" "rev (b @ js ''.com'')"] by (simp add: endsWith_def)
  then have "length b + 2 < length h" by (simp add: length_js)
  then show ?thesis by (simp add: similarity_check_Some not_close)
next
  case False
  then show ?thesis by (simp add: similarity_check_Some)
qed

text \<open>
  C3: what the code does on \<open>"http://go0gle.com"\<close>. The host is \<open>go0gle.com\<close>, whose
  distance to \<open>google\<close> is 5 (one substitution and the four units of \<open>.com\<close>), so
  the similarity rule for \<open>google\<close> does not fire; only the digit-substitution rule
  for \<open>0\<close> does: score 45, safePercent 55, verdict SUSPICIOUS, where the claim has
  score 95, safePercent 5 and UNSAFE.
\<close>

theorem go0gle_code_result:
  "host (comparison_forms U (js ''http://go0gle.com'')) = Some (js ''go0gle.com'')
   \<and> levenshtein (js ''go0gle.com'') (js ''google'') = Inr (Some 5)
   \<and> similarity_check (Some (js ''go0gle.com'')) (js ''google'') = Inr False
   \<and> analyzeURL U (js ''http://go0gle.com'') =
       Inr \<lparr>score = 45, safePercent = 55, verdict = SUSPICIOUS,
            findings = [js ''Typosquatting substitution: '' @ [39] @ js ''0'' @ [39]
                          @ js '' for '' @ [39] @ js ''o'' @ [39] @ js ''.'']\<rparr>"
proof (intro conjI)
  show "host (comparison_forms U (js ''http://go0gle.com'')) = Some (js ''go0gle.com'')"
    by (simp add: go0gle_forms)
  show lev: "levenshtein (js ''go0gle.com'') (js ''google'') = Inr (Some 5)"
    by (simp add: js_def table_defs)
  show "similarity_check (Some (js ''go0gle.com'')) (js ''google'') = Inr False"
    by (simp add: similarity_check_def lev cell_le_def)
  show "analyzeURL U (js ''http://go0gle.com'') =
       Inr \<lparr>score = 45, safePercent = 55, verdict = SUSPICIOUS,
            findings = [js ''Typosquatting substitution: '' @ [39] @ js ''0'' @ [39]
                          @ js '' for '' @ [39] @ js ''o'' @ [39] @ js ''.'']\<rparr>"
    by (simp add: analyzeURL_evaluate [OF go0gle_evaluate] conclude_def)
qed

text \<open>
  C5: on \<open>"http://www.paypa1-login-secure-verify.com"\<close> the loop over the rules ends
  with the pre-clamp total 170: the keyword cluster login + verify (50), the phishing
  keywords login, verify and secure (25 each) and the digit substitution \<open>1\<close> (45).
  The host has 3 hyphens, so the hyphen rule does not fire. The result is score 100,
  safePercent 0, verdict UNSAFE.
\<close>

theorem paypa1_scenario:
  "host (comparison_forms U (js ''http://www.paypa1-login-secure-verify.com''))
     = Some (js ''paypa1-login-secure-verify.com'')
   \<and> length (or_empty (match_all 45 (js ''paypa1-login-secure-verify.com''))) = 3
   \<and> (\<exists>risk. evaluate U (js ''http://www.paypa1-login-secure-verify.com'') =
         Inr (risk,
         [js ''Phishing keyword cluster detected: login + verify'',
          js ''Suspicious keyword detected: '' @ [39] @ js ''login'' @ [39] @ js ''.'',
          js ''Suspicious keyword detected: '' @ [39] @ js ''verify'' @ [39] @ js ''.'',
          js ''Suspicious keyword detected: '' @ [39] @ js ''secure'' @ [39] @ js ''.'',
          js ''Typosquatting substitution: '' @ [39] @ js ''1'' @ [39] @ js '' for ''
            @ [39] @ js ''l'' @ [39] @ js ''.''])
       \<and> risk = 50 + 25 + 25 + 25 + 45 \<and> 170 \<le> risk)
   \<and> analyzeURL U (js ''http://www.paypa1-login-secure-verify.com'') =
       Inr \<lparr>score = 100, safePercent = 0, verdict = UNSAFE,
         findings =
         [js ''Phishing keyword cluster detected: login + verify'',
          js ''Suspicious keyword detected: '' @ [39] @ js ''login'' @ [39] @ js ''.'',
          js ''Suspicious keyword detected: '' @ [39] @ js ''verify'' @ [39] @ js ''.'',
          js ''Suspicious keyword detected: '' @ [39] @ js ''secure'' @ [39] @ js ''.'',
          js ''Typosquatting substitution: '' @ [39] @ js ''1'' @ [39] @ js '' for ''
            @ [39] @ js ''l'' @ [39] @ js ''.'']\<rparr>"
proof (intro conjI)
  show "host (comparison_forms U (js ''http://www.paypa1-login-secure-verify.com''))
     = Some (js ''paypa1-login-secure-verify.com'')"
    by (simp add: paypa1_forms)
  show "length (or_empty (match_all 45 (js ''paypa1-login-secure-verify.com''))) = 3"
    by (rule paypa1_single(1))
  show "\<exists>risk. evaluate U (js ''http://www.paypa1-login-secure-verify.com'') =
         Inr (risk,
         [js ''Phishing keyword cluster detected: login + verify'',
          js ''Suspicious keyword detected: '' @ [39] @ js ''login'' @ [39] @ js ''.'',
          js ''Suspicious keyword detected: '' @ [39] @ js ''verify'' @ [39] @ js ''.'',
          js ''Suspicious keyword detected: '' @ [39] @ js ''secure'' @ [39] @ js ''.'',
          js ''Typosquatting substitution: '' @ [39] @ js ''1'' @ [39] @ js '' for ''
            @ [39] @ js ''l'' @ [39] @ js ''.''])
       \<and> risk = 50 + 25 + 25 + 25 + 45 \<and> 170 \<le> risk"
    by (simp add: paypa1_evaluate)
  show "analyzeURL U (js ''http://www.paypa1-login-secure-verify.com'') =
       Inr \<lparr>score = 100, safePercent = 0, verdict = UNSAFE,
         findings =
         [js ''Phishing keyword cluster detected: login + verify'',
          js ''Suspicious keyword detected: '' @ [39] @ js ''login'' @ [39] @ js ''.'',
          js ''Suspicious keyword detected: '' @ [39] @ js ''verify'' @ [39] @ js ''.'',
          js ''Suspicious keyword detected: '' @ [39] @ js ''secure'' @ [39] @ js ''.'',
          js ''Typosquatting substitution: '' @ [39] @ js ''1'' @ [39] @ js '' for ''
            @ [39] @ js ''l'' @ [39] @ js ''.'']\<rparr>"
    by (simp add: analyzeURL_evaluate [OF paypa1_evaluate] conclude_def)
qed

text \<open>
  C6: \<open>analyzeURL\<close> is total over strings: for every input, the empty string and
  strings that are no URL or are not ASCII included, it returns a well-formed result
  (score and safePercent between 0 and 100 with \<open>safePercent = 100 - score\<close>, the verdict
  the one of the thresholds) and never raises. On the empty string no rule fires:
  score 0, safePercent 100, verdict SAFE and no findings.
\<close>

theorem analyzeURL_total:
  "(\<exists>r. analyzeURL U s = Inr r
       \<and> 0 \<le> score r \<and> score r \<le> 100
       \<and> 0 \<le> safePercent r \<and> safePercent r \<le> 100
       \<and> safePercent r = 100 - score r
       \<and> verdict r = (if safePercent r < 50 then UNSAFE
                       else if safePercent r < 80 then SUSPICIOUS else SAFE))
   \<and> filter fired (rules_for U []) = []
   \<and> analyzeURL U [] = Inr \<lparr>score = 0, safePercent = 100, verdict = SAFE, findings = []\<rparr>"
proof (intro conjI)
  show "\<exists>r. analyzeURL U s = Inr r
       \<and> 0 \<le> score r \<and> score r \<le> 100
       \<and> 0 \<le> safePercent r \<and> safePercent r \<le> 100
       \<and> safePercent r = 100 - score r
       \<and> verdict r = (if safePercent r < 50 then UNSAFE
                       else if safePercent r < 80 then SUSPICIOUS else SAFE)"
    using fired_total_nonneg [of U s]
    by (simp add: analyzeURL_fired conclude_fields)
  show "filter fired (rules_for U []) = []"
    using evaluate_fired [of U "[]"] by (simp add: empty_evaluate)
  show "analyzeURL U [] = Inr \<lparr>score = 0, safePercent = 100, verdict = SAFE, findings = []\<rparr>"
    by (simp add: analyzeURL_evaluate [OF empty_evaluate] conclude_def)
qed

theorem analyzeURL_total_witness:
  "\<exists>r. analyzeURL (\<lambda>s i. [s ! i]) [32, 1072, 55296, 37, 58, 47, 47] = Inr r
      \<and> 0 \<le> score r \<and> score r \<le> 100
      \<and> 0 \<le> safePercent r \<and> safePercent r \<le> 100
      \<and> safePercent r = 100 - score r"
  using analyzeURL_total [of "\<lambda>s i. [s ! i]" "[32, 1072, 55296, 37, 58, 47, 47]"]
  by blast

text \<open>
  C7: for every input the findings are exactly the messages of the rules whose
  predicate evaluated true, one each, in the order of the catalogue; a rule whose
  predicate is false adds none. So the number of findings is the number of fired
  rules and at most the number of rules of the catalogue, 79.
\<close>

theorem findings_one_per_fired_rule:
  "\<exists>r. analyzeURL U s = Inr r
      \<and> findings r = map msg (filter fired (rules_for U s))
      \<and> length (findings r) = length (filter fired (rules_for U s))
      \<and> length (findings r) \<le> length (rules_for U s)
      \<and> length (rules_for U s) = 79"
proof -
  have n: "length (rules_for U s) = 79"
    by (simp add: rules_for_def Let_def length_rules)
  have "length (filter fired (rules_for U s)) \<le> length (rules_for U s)"
    by (rule length_filter_le)
  then show ?thesis
    by (simp add: analyzeURL_fired conclude_fields n)
qed

theorem findings_one_per_fired_rule_witness:
  "\<exists>r. analyzeURL (\<lambda>s i. [s ! i]) (js ''http://www.paypa1-login-secure-verify.com'') = Inr r
      \<and> length (findings r) = 5
      \<and> length (filter fired
            (rules_for (\<lambda>s i. [s ! i]) (js ''http://www.paypa1-login-secure-verify.com''))) = 5"
proof -
  let ?U = "\<lambda>(s::jsstring) (i::nat). [s ! i]"
  let ?s = "js ''http://www.paypa1-login-secure-verify.com''"
  from findings_one_per_fired_rule [of ?U ?s] obtain r where
    r: "analyzeURL ?U ?s = Inr r"
       "length (findings r) = length (filter fired (rules_for ?U ?s))"
    by blast
  have "analyzeURL ?U ?s = Inr (conclude 170
         [js ''Phishing keyword cluster detected: login + verify'',
          js ''Suspicious keyword detected: '' @ [39] @ js ''login'' @ [39] @ js ''.'',
          js ''Suspicious keyword detected: '' @ [39] @ js ''verify'' @ [39] @ js ''.'',
          js ''Suspicious keyword detected: '' @ [39] @ js ''secure'' @ [39] @ js ''.'',
          js ''Typosquatting substitution: '' @ [39] @ js ''1'' @ [39] @ js '' for '' @ [39] @ js ''l'' @ [39] @ js ''.''])"
    by (rule analyzeURL_evaluate [OF paypa1_evaluate])
  with r(1) have "r = conclude 170
         [js ''Phishing keyword cluster detected: login + verify'',
          js ''Suspicious keyword detected: '' @ [39] @ js ''login'' @ [39] @ js ''.'',
          js ''Suspicious keyword detected: '' @ [39] @ js ''verify'' @ [39] @ js ''.'',
          js ''Suspicious keyword detected: '' @ [39] @ js ''secure'' @ [39] @ js ''.'',
          js ''Typosquatting substitution: '' @ [39] @ js ''1'' @ [39] @ js '' for '' @ [39] @ js ''l'' @ [39] @ js ''.'']"
    by simp
  then have "length (findings r) = 5"
    by (simp add: conclude_fields)
  with r show ?thesis by simp
qed

text \<open>
  C10: for every input, if the findings are empty then the verdict is SAFE, with score
  0 and safePercent 100; a verdict SUSPICIOUS or UNSAFE implies at least one finding.
  Every rule has a strictly positive weight and a fired rule adds one finding, so the
  findings are empty iff the pre-clamp total is 0.
\<close>

theorem no_findings_means_safe:
  "\<exists>r risk. evaluate U s = Inr (risk, findings r) \<and> analyzeURL U s = Inr r
      \<and> (findings r = [] \<longleftrightarrow> risk = 0)
      \<and> (findings r = [] \<longrightarrow> verdict r = SAFE \<and> score r = 0 \<and> safePercent r = 100)
      \<and> (verdict r = SUSPICIOUS \<or> verdict r = UNSAFE \<longrightarrow> findings r \<noteq> [])
      \<and> (\<forall>q \<in> set (rules_for U s). 0 < rule.score q)"
proof -
  let ?k = "sum_list (map rule.score (filter fired (rules_for U s)))"
  let ?fs = "map msg (filter fired (rules_for U s))"
  have z: "?fs = [] \<longleftrightarrow> ?k = 0"
    using fired_total_zero [of U s] by simp
  have pos: "\<forall>q \<in> set (rules_for U s). 0 < rule.score q"
    by (auto simp: rules_for_def Let_def dest: rules_scores_positive)
  have "evaluate U s = Inr (?k, findings (conclude ?k ?fs))"
    by (simp add: evaluate_fired conclude_fields)
  moreover have "analyzeURL U s = Inr (conclude ?k ?fs)"
    by (rule analyzeURL_fired)
  moreover have "findings (conclude ?k ?fs) = [] \<longleftrightarrow> ?k = 0"
    using z by (simp add: conclude_fields)
  moreover have "findings (conclude ?k ?fs) = [] \<longrightarrow>
      verdict (conclude ?k ?fs) = SAFE \<and> score (conclude ?k ?fs) = 0
      \<and> safePercent (conclude ?k ?fs) = 100"
    using z by (simp add: conclude_fields)
  moreover have "verdict (conclude ?k ?fs) = SUSPICIOUS \<or> verdict (conclude ?k ?fs) = UNSAFE
      \<longrightarrow> findings (conclude ?k ?fs) \<noteq> []"
    using z by (auto simp: conclude_fields)
  ultimately show ?thesis using pos by blast
qed

theorem no_findings_means_safe_witness:
  "\<exists>r. analyzeURL (\<lambda>s i. [s ! i]) [] = Inr r \<and> findings r = []
      \<and> verdict r = SAFE \<and> score r = 0 \<and> safePercent r = 100"
proof -
  let ?U = "\<lambda>(s::jsstring) (i::nat). [s ! i]"
  from no_findings_means_safe [of ?U "[]"] obtain r risk where
    r: "evaluate ?U [] = Inr (risk, findings r)" "analyzeURL ?U [] = Inr r"
       "findings r = [] \<longrightarrow> verdict r = SAFE \<and> score r = 0 \<and> safePercent r = 100"
    by blast
  from r(1) have "findings r = []" by (simp add: empty_evaluate)
  with r show ?thesis by blast
qed

lemma trim_split:
  "dropWhile is_white s
     = trim s @ rev (takeWhile is_white (rev (dropWhile is_white s)))"
proof -
  let ?rest = "dropWhile is_white s"
  have "?rest = rev (takeWhile is_white (rev ?rest) @ dropWhile is_white (rev ?rest))"
    by (simp only: takeWhile_dropWhile_id rev_rev_ident)
  then show ?thesis
    by (simp only: rev_append trim_def)
qed

lemma trim_decomposition:
  "\<exists>pre post. s = pre @ trim s @ post \<and> list_all is_white pre \<and> list_all is_white post"
proof -
  let ?rest = "dropWhile is_white s"
  let ?post = "rev (takeWhile is_white (rev ?rest))"
  have "s = takeWhile is_white s @ ?rest" by simp
  then have 1: "s = takeWhile is_white s @ trim s @ ?post"
    using trim_split [of s] by simp
  have 3: "list_all is_white (takeWhile is_white s)"
    by (simp add: list_all_iff) (meson set_takeWhileD)
  have 4: "list_all is_white ?post"
    by (simp add: list_all_iff) (meson set_takeWhileD)
  from 1 3 4 show ?thesis by blast
qed

lemma trim_ends:
  assumes "trim s \<noteq> []"
  shows "\<not> is_white (hd (trim s)) \<and> \<not> is_white (last (trim s))"
proof -
  let ?rest = "dropWhile is_white s"
  let ?tl = "dropWhile is_white (rev ?rest)"
  have t: "trim s = rev ?tl" by (simp add: trim_def)
  with assms have b: "?tl \<noteq> []" by simp
  then have "\<not> is_white (hd ?tl)" by (rule hd_dropWhile)
  then have l: "\<not> is_white (last (trim s))" using b by (simp add: t last_rev)
  have r: "?rest \<noteq> []"
  proof
    assume e: "?rest = []"
    have "?tl = dropWhile is_white (rev [])" by (simp only: e)
    then have "?tl = []" by simp
    with b show False by simp
  qed
  then have h: "\<not> is_white (hd ?rest)" by (rule hd_dropWhile)
  have "hd ?rest = hd (trim s @ rev (takeWhile is_white (rev ?rest)))"
    using trim_split [of s] by simp
  then have "hd ?rest = hd (trim s)" using assms by simp
  with h l show ?thesis by simp
qed

text \<open>
  C8: for every input \<open>analyzeURL\<close> derives the comparison forms in this order: trim
  leading and trailing whitespace (what is cut off at both ends is whitespace, and
  what is left neither starts nor ends with whitespace), lower-case the result, strip
  one optional leading \<open>http://\<close> or \<open>https://\<close>, strip one optional leading \<open>www.\<close>,
  and take as host the prefix of the remainder that ends before the first \<open>/\<close>, \<open>?\<close>
  or \<open>#\<close>, the whole remainder if there is none. The rules are built from these
  forms. The normalisation always succeeds (the host is never \<open>undefined\<close>), on the
  empty string too.
\<close>

theorem comparison_forms_normalization:
  "comparison_forms U s =
     \<lparr>url = trim s,
      lower = toLowerCase U (trim s),
      clean = spec_strip_www (spec_strip_scheme (toLowerCase U (trim s))),
      host = Some (spec_host (spec_strip_www (spec_strip_scheme (toLowerCase U (trim s)))))\<rparr>
   \<and> rules_for U s =
       rules (trim s) (toLowerCase U (trim s))
         (Some (spec_host (spec_strip_www (spec_strip_scheme (toLowerCase U (trim s))))))
   \<and> (\<exists>pre post. s = pre @ trim s @ post \<and> list_all is_white pre \<and> list_all is_white post)
   \<and> (trim s \<noteq> [] \<longrightarrow> \<not> is_white (hd (trim s)) \<and> \<not> is_white (last (trim s)))
   \<and> comparison_forms U [] = \<lparr>url = [], lower = [], clean = [], host = Some []\<rparr>"
proof (intro conjI impI)
  show "comparison_forms U s =
     \<lparr>url = trim s,
      lower = toLowerCase U (trim s),
      clean = spec_strip_www (spec_strip_scheme (toLowerCase U (trim s))),
      host = Some (spec_host (spec_strip_www (spec_strip_scheme (toLowerCase U (trim s)))))\<rparr>"
    by (rule comparison_forms_spec)
  show "rules_for U s =
       rules (trim s) (toLowerCase U (trim s))
         (Some (spec_host (spec_strip_www (spec_strip_scheme (toLowerCase U (trim s))))))"
    by (simp add: rules_for_def Let_def comparison_forms_spec)
  show "\<exists>pre post. s = pre @ trim s @ post \<and> list_all is_white pre \<and> list_all is_white post"
    by (rule trim_decomposition)
  show "\<not> is_white (hd (trim s))" "\<not> is_white (last (trim s))" if "trim s \<noteq> []"
    using trim_ends [OF that] by simp_all
  show "comparison_forms U [] = \<lparr>url = [], lower = [], clean = [], host = Some []\<rparr>"
    by (rule empty_forms)
qed

theorem comparison_forms_normalization_witness:
  "comparison_forms (\<lambda>s i. [s ! i]) (js ''  HTTPS://WWW.Example.COM/Path?q=1#top '') =
     \<lparr>url = js ''HTTPS://WWW.Example.COM/Path?q=1#top'',
      lower = js ''https://www.example.com/path?q=1#top'',
      clean = js ''example.com/path?q=1#top'',
      host = Some (js ''example.com'')\<rparr>
   \<and> \<not> is_white (hd (js ''HTTPS://WWW.Example.COM/Path?q=1#top''))"
proof -
  let ?U = "\<lambda>(s::jsstring) (i::nat). [s ! i]"
  let ?s = "js ''  HTTPS://WWW.Example.COM/Path?q=1#top ''"
  have t: "trim ?s = js ''HTTPS://WWW.Example.COM/Path?q=1#top''"
    by (simp add: trim_def js_def is_white_def)
  have l: "toLowerCase ?U (js ''HTTPS://WWW.Example.COM/Path?q=1#top'')
             = js ''https://www.example.com/path?q=1#top''"
    by (simp add: toLowerCase_ascii js_def lower_unit_def)
  have c: "spec_strip_www (spec_strip_scheme (js ''https://www.example.com/path?q=1#top''))
             = js ''example.com/path?q=1#top''"
    by (simp add: spec_strip_www_def spec_strip_scheme_def spec_has_prefix_def js_def)
  have h: "spec_host (js ''example.com/path?q=1#top'') = js ''example.com''"
    by (simp add: spec_host_def js_def)
  have n: "trim ?s \<noteq> []" unfolding t by (simp add: js_def)
  from comparison_forms_normalization [of ?U ?s] n
  have "comparison_forms ?U ?s =
     \<lparr>url = trim ?s,
      lower = toLowerCase ?U (trim ?s),
      clean = spec_strip_www (spec_strip_scheme (toLowerCase ?U (trim ?s))),
      host = Some (spec_host (spec_strip_www (spec_strip_scheme (toLowerCase ?U (trim ?s)))))\<rparr>"
    and "\<not> is_white (hd (trim ?s))"
    by blast+
  then show ?thesis by (simp only: t l c h simp_thms)
qed

lemma encoded_rule_position:
  "rules u l h ! 62 =
     \<lparr>check = (\<lambda>_. Inr (looksEncoded (to_string (pop (split_where (\<lambda>c. c = 61) l))))),
      score = 40, msg = js ''Encoded redirect detected.''\<rparr>"
  by (simp add: rules_def data_defs nth_append)

lemma fired_score_le_total:
  assumes "q \<in> set rs" "fired q" "\<And>r. r \<in> set rs \<Longrightarrow> 0 < rule.score r"
  shows "rule.score q \<le> sum_list (map rule.score (filter fired rs))"
  using assms
proof (induction rs)
  case Nil
  then show ?case by simp
next
  case (Cons r rs)
  have nonneg: "0 \<le> sum_list (map rule.score (filter fired rs))"
    by (rule sum_list_nonneg) (use Cons.prems(3) in \<open>auto simp: less_imp_le\<close>)
  show ?case
  proof (cases "q = r")
    case True
    then show ?thesis using Cons.prems(2) nonneg by simp
  next
    case False
    then have "rule.score q \<le> sum_list (map rule.score (filter fired rs))"
      using Cons by simp
    moreover have "0 < rule.score r" using Cons.prems(3) by simp
    ultimately show ?thesis by simp
  qed
qed

text \<open>
  C9: if the trimmed, lower-cased input contains no \<open>=\<close>, the encoded-redirect rule
  (the rule at index 62 of the catalogue, weight 40) tests its pattern on the whole
  lower-cased input. Hence an input that after trimming and lower-casing has at
  least 12 units, all of \<open>[A-Za-z0-9+/]\<close>, and no \<open>=\<close> fires the rule: its message is
  among the findings and its 40 is part of the total, so the score is at least 40.
\<close>

theorem encoded_redirect_without_equals:
  assumes "61 \<notin> set (toLowerCase U (trim s))"
  shows "msg (rules_for U s ! 62) = js ''Encoded redirect detected.''
     \<and> rule.score (rules_for U s ! 62) = 40
     \<and> check (rules_for U s ! 62) () = Inr (looksEncoded (toLowerCase U (trim s)))
     \<and> (12 \<le> length (toLowerCase U (trim s)) \<and> list_all is_base64 (toLowerCase U (trim s))
          \<longrightarrow> fired (rules_for U s ! 62)
            \<and> (\<exists>r risk. evaluate U s = Inr (risk, findings r) \<and> analyzeURL U s = Inr r
                 \<and> 40 \<le> risk
                 \<and> js ''Encoded redirect detected.'' \<in> set (findings r)
                 \<and> 40 \<le> score r))"
proof -
  let ?l = "toLowerCase U (trim s)"
  let ?rs = "rules_for U s"
  let ?q = "?rs ! 62"
  have q: "?q = \<lparr>check = (\<lambda>_. Inr (looksEncoded (to_string (pop (split_where (\<lambda>c. c = 61) ?l))))),
      score = 40, msg = js ''Encoded redirect detected.''\<rparr>"
    by (simp add: rules_for_def Let_def comparison_forms_spec encoded_rule_position)
  have "\<not> list_ex (\<lambda>c. c = 61) ?l"
    using assms by (auto simp: list_ex_iff)
  then have whole: "to_string (pop (split_where (\<lambda>c. c = 61) ?l)) = ?l"
    by (simp add: split_where_no_separator pop_def to_string_def)
  have chk: "check ?q () = Inr (looksEncoded ?l)"
    by (simp add: q whole)
  have rest: "fired ?q
            \<and> (\<exists>r risk. evaluate U s = Inr (risk, findings r) \<and> analyzeURL U s = Inr r
                 \<and> 40 \<le> risk
                 \<and> js ''Encoded redirect detected.'' \<in> set (findings r)
                 \<and> 40 \<le> score r)"
    if long: "12 \<le> length ?l" and b64: "list_all is_base64 ?l"
  proof -
    have "base64_padded 0 ?l"
      using long b64 by (simp add: base64_padded_def)
    then have f: "fired ?q"
      by (simp add: fired_def chk looksEncoded_def)
    have n: "length ?rs = 79"
      by (simp add: rules_for_def Let_def length_rules)
    then have mem: "?q \<in> set ?rs" by simp
    let ?k = "sum_list (map rule.score (filter fired ?rs))"
    let ?fs = "map msg (filter fired ?rs)"
    have "rule.score ?q \<le> ?k"
      using mem f by (rule fired_score_le_total)
         (auto simp: rules_for_def Let_def dest: rules_scores_positive)
    then have k: "40 \<le> ?k" by (simp add: q)
    have "msg ?q \<in> set ?fs" using mem f by simp
    then have m: "js ''Encoded redirect detected.'' \<in> set ?fs" by (simp add: q)
    have "evaluate U s = Inr (?k, findings (conclude ?k ?fs))"
      by (simp add: evaluate_fired conclude_fields)
    moreover have "analyzeURL U s = Inr (conclude ?k ?fs)"
      by (rule analyzeURL_fired)
    moreover have "js ''Encoded redirect detected.'' \<in> set (findings (conclude ?k ?fs))"
      using m by (simp add: conclude_fields)
    moreover have "40 \<le> score (conclude ?k ?fs)"
      using k by (simp add: conclude_fields)
    ultimately show ?thesis using f k by blast
  qed
  show ?thesis
    using chk rest by (simp add: q)
qed

theorem encoded_redirect_without_equals_witness:
  "fired (rules_for (\<lambda>s i. [s ! i]) (js '' HelloWorldAb'') ! 62)
   \<and> (\<exists>r. analyzeURL (\<lambda>s i. [s ! i]) (js '' HelloWorldAb'') = Inr r
         \<and> js ''Encoded redirect detected.'' \<in> set (findings r) \<and> 40 \<le> score r)"
proof -
  let ?U = "\<lambda>(s::jsstring) (i::nat). [s ! i]"
  let ?s = "js '' HelloWorldAb''"
  have l: "toLowerCase ?U (trim ?s) = js ''helloworldab''"
    by (simp add: trim_def toLowerCase_ascii js_def is_white_def lower_unit_def)
  have 1: "61 \<notin> set (toLowerCase ?U (trim ?s))"
    unfolding l by (simp add: js_def)
  have 2: "12 \<le> length (toLowerCase ?U (trim ?s)) \<and> list_all is_base64 (toLowerCase ?U (trim ?s))"
    unfolding l by (simp add: js_def is_base64_def)
  from encoded_redirect_without_equals [OF 1] 2 show ?thesis by blast
qed

end
